theory Spec2Isabelle
  imports Main "HOL-Library.Multiset"
begin

section \<open>JavaScript values used by the back end\<close>

text \<open>
  Strings are lists of characters. A JavaScript string is truthy exactly when it is not
  empty; an optional string (possibly \<open>undefined\<close>) is truthy when present and not empty.
\<close>

definition truthy_str :: "string \<Rightarrow> bool" where
  "truthy_str s = (s \<noteq> [])"

definition truthy_opt :: "string option \<Rightarrow> bool" where
  "truthy_opt v = (case v of None \<Rightarrow> False | Some s \<Rightarrow> truthy_str s)"

text \<open>\<open>Array.prototype.join\<close>.\<close>

fun join :: "string \<Rightarrow> string list \<Rightarrow> string" where
  "join sep [] = []"
| "join sep [x] = x"
| "join sep (x # y # ys) = x @ sep @ join sep (y # ys)"

text \<open>\<open>String.prototype.toLowerCase\<close>, on the ASCII letters.\<close>

definition lower_char :: "char \<Rightarrow> char" where
  "lower_char c =
     (let n = (of_char c :: nat) in if 65 \<le> n \<and> n \<le> 90 then char_of (n + 32) else c)"

definition toLowerCase :: "string \<Rightarrow> string" where
  "toLowerCase s = map lower_char s"

definition dquote :: char where
  "dquote = CHR 0x22"

definition backslash :: char where
  "backslash = CHR 0x5C"

text \<open>
  What a call into the environment gives back: it throws (or its promise rejects), or it
  returns a value.
\<close>

datatype 'a reply = Rejected | Resolved 'a

section \<open>Query compiler (utils/queryBuilder.js)\<close>

definition DEFAULT_QUERY :: string where
  "DEFAULT_QUERY = ''kind:email''"

text \<open>\<open>value.replace(/"/g, '\\"')\<close>: every double quote gets a backslash in front.\<close>

definition escapeValue :: "string \<Rightarrow> string" where
  "escapeValue v = concat (map (\<lambda>c. if c = dquote then [backslash, dquote] else [c]) v)"

text \<open>
  A \<open>Date\<close> object is either invalid (its time value is NaN) or valid; a valid one is
  represented by the text \<open>toISOString()\<close> gives for it.
\<close>

datatype js_date = InvalidDate | DateISO string

text \<open>
  \<open>toDatePart\<close>: \<open>null\<close> for a missing value or an invalid date, otherwise the part of
  the ISO text before the first \<open>T\<close>.
\<close>

definition toDatePart :: "js_date option \<Rightarrow> string option" where
  "toDatePart v =
     (case v of
        None \<Rightarrow> None
      | Some InvalidDate \<Rightarrow> None
      | Some (DateISO txt) \<Rightarrow> Some (takeWhile (\<lambda>c. c \<noteq> CHR ''T'') txt))"

record aqs_filter =
  q_sender :: "string option"
  q_subject :: "string option"
  q_body :: "string option"
  q_keywords :: "string list option"
  q_receivedFrom :: "js_date option"
  q_receivedTo :: "js_date option"
  q_hasAttachments :: "bool option"
  q_importance :: "string option"

definition quoted :: "string \<Rightarrow> string" where
  "quoted v = [dquote] @ escapeValue v @ [dquote]"

definition bool_text :: "bool \<Rightarrow> string" where
  "bool_text b = (if b then ''true'' else ''false'')"

text \<open>
  \<open>buildAqsQuery\<close>, statement by statement: \<open>clauses\<close> starts empty and each \<open>if\<close>
  pushes one clause at its end.
\<close>

definition buildAqsQuery :: "aqs_filter \<Rightarrow> string" where
  "buildAqsQuery f =
     (let clauses = [];
          clauses = (if truthy_opt (q_sender f)
                     then clauses @ [''from:'' @ quoted (the (q_sender f))] else clauses);
          clauses = (if truthy_opt (q_subject f)
                     then clauses @ [''subject:'' @ quoted (the (q_subject f))] else clauses);
          clauses = (if truthy_opt (q_body f)
                     then clauses @ [''body:'' @ quoted (the (q_body f))] else clauses);
          clauses = (case q_keywords f of
                       None \<Rightarrow> clauses
                     | Some keywords \<Rightarrow>
                         if keywords \<noteq> [] then
                           (let keywordString =
                                  join '' AND '' (map quoted (filter truthy_str keywords))
                            in if truthy_str keywordString
                               then clauses @ [keywordString] else clauses)
                         else clauses);
          receivedAfter = toDatePart (q_receivedFrom f);
          clauses = (if truthy_opt receivedAfter
                     then clauses @ [''received>='' @ the receivedAfter] else clauses);
          receivedBefore = toDatePart (q_receivedTo f);
          clauses = (if truthy_opt receivedBefore
                     then clauses @ [''received<='' @ the receivedBefore] else clauses);
          clauses = (case q_hasAttachments f of
                       None \<Rightarrow> clauses
                     | Some b \<Rightarrow> clauses @ [''hasattachment:'' @ bool_text b]);
          clauses = (if truthy_opt (q_importance f)
                     then clauses @ [''importance:'' @ toLowerCase (the (q_importance f))]
                     else clauses)
      in if clauses \<noteq> [] then join '' AND '' clauses else DEFAULT_QUERY)"

subsection \<open>The clause order named by the specification\<close>

text \<open>
  The specification's description of the compiler: each of the eight fields contributes
  at most one clause, the clauses that apply are taken in the fixed order sender, subject,
  body, keywords, received-after, received-before, attachment flag, importance, and are
  joined by \<open>AND\<close>; with no clause the default clause is returned.
\<close>

definition text_clause :: "string \<Rightarrow> string option \<Rightarrow> string option" where
  "text_clause field v =
     (case v of None \<Rightarrow> None
      | Some s \<Rightarrow> if s = [] then None else Some (field @ quoted s))"

definition keywords_clause :: "string list option \<Rightarrow> string option" where
  "keywords_clause v =
     (case v of None \<Rightarrow> None
      | Some ks \<Rightarrow>
          (case filter (\<lambda>k. k \<noteq> []) ks of
             [] \<Rightarrow> None
           | k # ks' \<Rightarrow> Some (join '' AND '' (map quoted (k # ks')))))"

definition date_part_clause :: "string \<Rightarrow> string option \<Rightarrow> string option" where
  "date_part_clause rel d =
     (case d of None \<Rightarrow> None
      | Some t \<Rightarrow> if t = [] then None else Some (rel @ t))"

definition date_clause :: "string \<Rightarrow> js_date option \<Rightarrow> string option" where
  "date_clause rel v = date_part_clause rel (toDatePart v)"

definition attachment_clause :: "bool option \<Rightarrow> string option" where
  "attachment_clause v = map_option (\<lambda>b. ''hasattachment:'' @ bool_text b) v"

definition importance_clause :: "string option \<Rightarrow> string option" where
  "importance_clause v =
     (case v of None \<Rightarrow> None
      | Some s \<Rightarrow> if s = [] then None else Some (''importance:'' @ toLowerCase s))"

definition applicable_clauses :: "aqs_filter \<Rightarrow> string list" where
  "applicable_clauses f =
     List.map_filter id
       [text_clause ''from:'' (q_sender f),
        text_clause ''subject:'' (q_subject f),
        text_clause ''body:'' (q_body f),
        keywords_clause (q_keywords f),
        date_clause ''received>='' (q_receivedFrom f),
        date_clause ''received<='' (q_receivedTo f),
        attachment_clause (q_hasAttachments f),
        importance_clause (q_importance f)]"

section \<open>Exchange service (services/exchangeService.js)\<close>

subsection \<open>Values of the Exchange client library\<close>

datatype DeleteMode = HardDelete | SoftDelete | MoveToDeletedItems

datatype WellKnownFolderName = Inbox | JunkEmail | DeletedItems | SentItems | Drafts | ArchiveRoot

text \<open>
  The members of the library's enumerations are numbers; which number each member is,
  the library decides. A number is truthy when it is not zero.
\<close>

record ews_lib =
  deleteModeCode :: "DeleteMode \<Rightarrow> int"
  folderNameCode :: "WellKnownFolderName \<Rightarrow> int"

text \<open>
  A property read \<open>obj[key]\<close> on an object literal finds the object's own properties
  and, under every other key, what all objects inherit from \<open>Object.prototype\<close>:
  its methods, the \<open>constructor\<close> function and the \<open>__proto__\<close> accessor. The
  inherited values are functions or objects, which are truthy.
\<close>

definition objectPrototypeKeys :: "string list" where
  "objectPrototypeKeys =
     [''constructor'', ''__proto__'', ''hasOwnProperty'', ''isPrototypeOf'',
      ''propertyIsEnumerable'', ''toString'', ''toLocaleString'', ''valueOf'',
      ''__defineGetter__'', ''__defineSetter__'', ''__lookupGetter__'',
      ''__lookupSetter__'']"

datatype 'a property = Own 'a | Inherited string

definition get_property :: "(string \<times> 'a) list \<Rightarrow> string \<Rightarrow> 'a property option" where
  "get_property obj key =
     (case map_of obj key of
        Some v \<Rightarrow> Some (Own v)
      | None \<Rightarrow> if key \<in> set objectPrototypeKeys then Some (Inherited key) else None)"

definition truthy_property :: "('a \<Rightarrow> int) \<Rightarrow> 'a property option \<Rightarrow> bool" where
  "truthy_property code v =
     (case v of None \<Rightarrow> False | Some (Own x) \<Rightarrow> code x \<noteq> 0 | Some (Inherited k) \<Rightarrow> True)"

definition DELETE_MODE_MAP :: "(string \<times> DeleteMode) list" where
  "DELETE_MODE_MAP =
     [(''softdelete'', SoftDelete),
      (''movetodeleteditems'', MoveToDeletedItems),
      (''harddelete'', HardDelete)]"

definition FOLDER_MAP :: "(string \<times> WellKnownFolderName) list" where
  "FOLDER_MAP =
     [(''inbox'', Inbox),
      (''junkemail'', JunkEmail),
      (''deleteditems'', DeletedItems),
      (''sentitems'', SentItems),
      (''drafts'', Drafts),
      (''archive'', ArchiveRoot)]"

subsection \<open>Configuration and errors\<close>

record config =
  cfg_ewsUrl :: "string option"
  cfg_autodiscoverEmail :: "string option"
  cfg_username :: "string option"
  cfg_password :: "string option"
  defaultFolders :: "string list"
  cfg_maxPerMailbox :: int
  pageSize :: int
  maxConcurrency :: int

text \<open>
  The errors the service raises, each with the context its \<open>details\<close> carry, and the
  message of each.
\<close>

datatype exchange_error =
    CredentialsNotConfigured
  | EndpointNotConfigured
  | ServiceInitFailed string
  | UnsupportedFolder string
  | EnumerationFailed
  | FindItemsFailed string string
  | DeleteItemsFailed string

fun error_message :: "exchange_error \<Rightarrow> string" where
  "error_message CredentialsNotConfigured = ''EWS credentials are not configured''"
| "error_message EndpointNotConfigured =
     ''Either EWS_URL or EWS_AUTODISCOVER_EMAIL must be supplied in the environment.''"
| "error_message (ServiceInitFailed operation) =
     ''Failed to initialise Exchange Web Services client''"
| "error_message (UnsupportedFolder folder) = ''Unsupported folder specified: '' @ folder"
| "error_message EnumerationFailed = ''Unable to enumerate searchable mailboxes''"
| "error_message (FindItemsFailed mailbox folder) = ''Failed to search mailbox folder''"
| "error_message (DeleteItemsFailed mailbox) = ''Failed to delete messages''"

subsection \<open>Items, views and the remote server\<close>

record item_id =
  UniqueId :: string
  ChangeKey :: string

text \<open>
  An item as the server returns it under the requested property set. The received date
  is held as the ISO text the transform turns it into.
\<close>

record ews_item =
  Id :: item_id
  Subject :: "string option"
  FromAddress :: "string option"
  SenderAddress :: "string option"
  DateTimeReceived :: "string option"
  InternetMessageId :: "string option"
  HasAttachments :: bool
  Size :: "int option"
  BodyText :: "string option"

record match_record =
  m_id :: string
  m_changeKey :: string
  m_subject :: string
  m_from :: "string option"
  m_sender :: "string option"
  m_receivedAt :: "string option"
  m_internetMessageId :: "string option"
  m_hasAttachments :: bool
  m_size :: "int option"
  m_bodyPreview :: string
  m_mailbox :: string
  m_folder :: string

record found =
  f_item :: ews_item
  f_metadata :: match_record

record item_view =
  iv_pageSize :: int
  iv_offset :: int

record find_results =
  Items :: "ews_item list option"
  MoreAvailable :: bool
  NextPageOffset :: int

record folder_descriptor =
  fd_name :: string
  fd_id :: "WellKnownFolderName property"

record searchable_mailbox =
  DisplayName :: string
  PrimarySmtpAddress :: string
  IsExternalMailbox :: bool
  ReferenceId :: string
  IsSearchable :: bool

record mailbox =
  displayName :: string
  smtpAddress :: string
  isExternal :: bool
  referenceId :: string

text \<open>The calls a mailbox task makes to the remote server, in the order it makes them.\<close>

datatype remote_call =
    FindItemsCall string "WellKnownFolderName property" string item_view
  | DeleteItemsCall string "item_id list" "DeleteMode property"

fun isDeleteCall :: "remote_call \<Rightarrow> bool" where
  "isDeleteCall (DeleteItemsCall mailbox ids deleteMode) = True"
| "isDeleteCall (FindItemsCall mailbox folder query view) = False"

text \<open>
  The world outside the service. Whether setting up a client succeeds, for an operation
  and a mailbox; what the server answers to a find call, which may depend on the mailbox
  and on how many calls the mailbox task has made before; whether a bulk delete
  succeeds; the answer to the mailbox enumeration; and the comparison
  \<open>String.prototype.localeCompare\<close> of the host. Each mailbox task has a session of
  its own, so what one task does is not seen by another.
\<close>

record world =
  serviceInit :: "string \<Rightarrow> string option \<Rightarrow> bool"
  FindItems :: "string \<Rightarrow> nat \<Rightarrow> WellKnownFolderName property \<Rightarrow> string \<Rightarrow> item_view
                  \<Rightarrow> find_results option reply"
  DeleteItems :: "string \<Rightarrow> item_id list \<Rightarrow> DeleteMode property \<Rightarrow> unit reply"
  GetSearchableMailboxes :: "searchable_mailbox list option reply"
  localeCompare :: "string \<Rightarrow> string \<Rightarrow> int"

subsection \<open>Setting up a client\<close>

definition createService :: "world \<Rightarrow> config \<Rightarrow> string \<Rightarrow> string option \<Rightarrow> exchange_error option" where
  "createService w cfg operation mbx =
     (if \<not> truthy_opt (cfg_username cfg) \<or> \<not> truthy_opt (cfg_password cfg)
      then Some CredentialsNotConfigured
      else if \<not> truthy_opt (cfg_ewsUrl cfg) \<and> \<not> truthy_opt (cfg_autodiscoverEmail cfg)
      then Some EndpointNotConfigured
      else if serviceInit w operation mbx then None
      else Some (ServiceInitFailed operation))"

definition ensureFolder :: "ews_lib \<Rightarrow> string \<Rightarrow> exchange_error + folder_descriptor" where
  "ensureFolder lib folder =
     (let normalized = toLowerCase folder;
          resolved = get_property FOLDER_MAP normalized
      in if \<not> truthy_property (folderNameCode lib) resolved then Inl (UnsupportedFolder folder)
         else Inr \<lparr>fd_name = folder, fd_id = the resolved\<rparr>)"

text \<open>\<open>targetFolders.map(ensureFolder)\<close>: the first folder that is refused throws.\<close>

fun map_ensureFolder :: "ews_lib \<Rightarrow> string list \<Rightarrow> exchange_error + folder_descriptor list" where
  "map_ensureFolder lib [] = Inr []"
| "map_ensureFolder lib (folder # rest) =
     (case ensureFolder lib folder of
        Inl e \<Rightarrow> Inl e
      | Inr d \<Rightarrow> (case map_ensureFolder lib rest of Inl e \<Rightarrow> Inl e | Inr ds \<Rightarrow> Inr (d # ds)))"

definition resolveFolders :: "ews_lib \<Rightarrow> config \<Rightarrow> string list option \<Rightarrow> exchange_error + folder_descriptor list" where
  "resolveFolders lib cfg folders =
     (let targetFolders = (case folders of
                             None \<Rightarrow> defaultFolders cfg
                           | Some fs \<Rightarrow> if fs \<noteq> [] then fs else defaultFolders cfg)
      in map_ensureFolder lib targetFolders)"

subsection \<open>Folder scanner\<close>

definition or_empty :: "string option \<Rightarrow> string" where
  "or_empty v = (if truthy_opt v then the v else [])"

definition buildTransform :: "string \<Rightarrow> string \<Rightarrow> ews_item \<Rightarrow> match_record" where
  "buildTransform mbx folder item =
     \<lparr>m_id = UniqueId (Id item),
      m_changeKey = ChangeKey (Id item),
      m_subject = or_empty (Subject item),
      m_from = (if truthy_opt (FromAddress item) then FromAddress item else None),
      m_sender = (if truthy_opt (SenderAddress item) then SenderAddress item else None),
      m_receivedAt = (if truthy_opt (DateTimeReceived item) then DateTimeReceived item else None),
      m_internetMessageId =
        (if truthy_opt (InternetMessageId item) then InternetMessageId item else None),
      m_hasAttachments = HasAttachments item,
      m_size = Size item,
      m_bodyPreview = (if truthy_opt (BodyText item) then take 500 (the (BodyText item)) else []),
      m_mailbox = mbx,
      m_folder = folder\<rparr>"

text \<open>
  \<open>appendResults\<close>: the items of one page are pushed one by one, and an item is
  skipped once \<open>limit\<close> items are held.
\<close>

definition appendResults :: "string \<Rightarrow> string \<Rightarrow> int \<Rightarrow> found list \<Rightarrow> find_results option \<Rightarrow> found list" where
  "appendResults mbx folderName limit items findResults =
     (case findResults of
        None \<Rightarrow> items
      | Some r \<Rightarrow>
          (case Items r of
             None \<Rightarrow> items
           | Some page \<Rightarrow>
               foldl (\<lambda>items item.
                        if int (length items) \<ge> limit then items
                        else items @ [\<lparr>f_item = item,
                                       f_metadata = buildTransform mbx folderName item\<rparr>])
                     items page))"

text \<open>
  The \<open>while\<close> loop of \<open>findItemsInFolder\<close>. The server decides whether more pages
  are available, so the loop need not end: the result \<open>None\<close> stands for a scan that
  never returns. A result is the items, or the wrapped error of a find call that
  failed, together with the calls made so far.
\<close>

partial_function (option) scanPages ::
  "world \<Rightarrow> int \<Rightarrow> string \<Rightarrow> folder_descriptor \<Rightarrow> string \<Rightarrow> int \<Rightarrow> find_results option
     \<Rightarrow> found list \<Rightarrow> remote_call list
     \<Rightarrow> ((exchange_error + found list) \<times> remote_call list) option"
where
  "scanPages w pageSz mbx folder query limit results items calls =
     (case results of
        None \<Rightarrow> Some (Inr (take (nat limit) items), calls)
      | Some r \<Rightarrow>
          if MoreAvailable r \<and> int (length items) < limit then
            (case FindItems w mbx (length calls) (fd_id folder) query
                    \<lparr>iv_pageSize = min (limit - int (length items)) pageSz,
                     iv_offset = NextPageOffset r\<rparr> of
               Rejected \<Rightarrow>
                 Some (Inl (FindItemsFailed mbx (fd_name folder)),
                       calls @ [FindItemsCall mbx (fd_id folder) query
                                  \<lparr>iv_pageSize = min (limit - int (length items)) pageSz,
                                   iv_offset = NextPageOffset r\<rparr>])
             | Resolved results' \<Rightarrow>
                 scanPages w pageSz mbx folder query limit results'
                   (appendResults mbx (fd_name folder) limit items results')
                   (calls @ [FindItemsCall mbx (fd_id folder) query
                               \<lparr>iv_pageSize = min (limit - int (length items)) pageSz,
                                iv_offset = NextPageOffset r\<rparr>]))
          else Some (Inr (take (nat limit) items), calls))"

declare scanPages.simps [code]

definition findItemsInFolder ::
  "world \<Rightarrow> int \<Rightarrow> folder_descriptor \<Rightarrow> string \<Rightarrow> int \<Rightarrow> string \<Rightarrow> remote_call list
     \<Rightarrow> ((exchange_error + found list) \<times> remote_call list) option"
where
  "findItemsInFolder w pageSz folderDescriptor query limit mbx calls =
     (if limit \<le> 0 then Some (Inr [], calls)
      else
        (let view = \<lparr>iv_pageSize = min limit pageSz, iv_offset = 0\<rparr>;
             calls' = calls @ [FindItemsCall mbx (fd_id folderDescriptor) query view]
         in case FindItems w mbx (length calls) (fd_id folderDescriptor) query view of
              Rejected \<Rightarrow> Some (Inl (FindItemsFailed mbx (fd_name folderDescriptor)), calls')
            | Resolved results \<Rightarrow>
                scanPages w pageSz mbx folderDescriptor query limit results
                  (appendResults mbx (fd_name folderDescriptor) limit [] results) calls'))"

text \<open>
  A server that, whenever it says more pages are available, has put at least one item on
  the page it returns.
\<close>

definition productive :: "world \<Rightarrow> bool" where
  "productive w =
     (\<forall>mbx n folder query view r.
        FindItems w mbx n folder query view = Resolved (Some r) \<and> MoreAvailable r
          \<longrightarrow> (\<exists>page. Items r = Some page \<and> page \<noteq> []))"

subsection \<open>Mailbox directory\<close>

definition getSearchableMailboxes :: "world \<Rightarrow> config \<Rightarrow> exchange_error + mailbox list" where
  "getSearchableMailboxes w cfg =
     (case createService w cfg ''GetSearchableMailboxes'' None of
        Some e \<Rightarrow> Inl e
      | None \<Rightarrow>
          (case GetSearchableMailboxes w of
             Rejected \<Rightarrow> Inl EnumerationFailed
           | Resolved None \<Rightarrow> Inr []
           | Resolved (Some entries) \<Rightarrow>
               Inr (map (\<lambda>entry. \<lparr>displayName = DisplayName entry,
                                     smtpAddress = PrimarySmtpAddress entry,
                                     isExternal = IsExternalMailbox entry,
                                     referenceId = ReferenceId entry\<rparr>)
                        (filter IsSearchable entries))))"

subsection \<open>Per-mailbox executor\<close>

text \<open>
  The \<open>for\<close> loop of \<open>collectMatchesForMailbox\<close>: each folder is scanned with the
  capacity that is left, and the loop is left once the limit is reached.
\<close>

fun collectLoop ::
  "world \<Rightarrow> int \<Rightarrow> string \<Rightarrow> string \<Rightarrow> int \<Rightarrow> folder_descriptor list \<Rightarrow> match_record list
     \<Rightarrow> remote_call list \<Rightarrow> ((exchange_error + match_record list) \<times> remote_call list) option"
where
  "collectLoop w pageSz mbx query limit [] matches calls = Some (Inr matches, calls)"
| "collectLoop w pageSz mbx query limit (folder # rest) matches calls =
     (case findItemsInFolder w pageSz folder query (limit - int (length matches)) mbx calls of
        None \<Rightarrow> None
      | Some (Inl e, calls') \<Rightarrow> Some (Inl e, calls')
      | Some (Inr items, calls') \<Rightarrow>
          (let matches' = matches @ map f_metadata items
           in if int (length matches') \<ge> limit then Some (Inr matches', calls')
              else collectLoop w pageSz mbx query limit rest matches' calls'))"

definition collectMatchesForMailbox ::
  "world \<Rightarrow> config \<Rightarrow> mailbox \<Rightarrow> folder_descriptor list \<Rightarrow> string \<Rightarrow> int
     \<Rightarrow> ((exchange_error + match_record list) \<times> remote_call list) option"
where
  "collectMatchesForMailbox w cfg mbx folders query limit =
     (case createService w cfg ''CollectMatches'' (Some (smtpAddress mbx)) of
        Some e \<Rightarrow> Some (Inl e, [])
      | None \<Rightarrow> collectLoop w (pageSize cfg) (smtpAddress mbx) query limit folders [] [])"

text \<open>The \<open>for\<close> loop of \<open>deleteForMailbox\<close>, which also keeps the item identifiers.\<close>

fun deleteLoop ::
  "world \<Rightarrow> int \<Rightarrow> string \<Rightarrow> string \<Rightarrow> int \<Rightarrow> folder_descriptor list \<Rightarrow> match_record list
     \<Rightarrow> item_id list \<Rightarrow> remote_call list
     \<Rightarrow> ((exchange_error + match_record list \<times> item_id list) \<times> remote_call list) option"
where
  "deleteLoop w pageSz mbx query limit [] matches deletableIds calls =
     Some (Inr (matches, deletableIds), calls)"
| "deleteLoop w pageSz mbx query limit (folder # rest) matches deletableIds calls =
     (case findItemsInFolder w pageSz folder query (limit - int (length matches)) mbx calls of
        None \<Rightarrow> None
      | Some (Inl e, calls') \<Rightarrow> Some (Inl e, calls')
      | Some (Inr items, calls') \<Rightarrow>
          (let matches' = matches @ map f_metadata items;
               deletableIds' = deletableIds @ map (\<lambda>entry. Id (f_item entry)) items
           in if int (length matches') \<ge> limit then Some (Inr (matches', deletableIds'), calls')
              else deleteLoop w pageSz mbx query limit rest matches' deletableIds' calls'))"

record delete_result =
  dr_matches :: "match_record list"
  dr_deleted :: nat

definition deleteForMailbox ::
  "world \<Rightarrow> config \<Rightarrow> mailbox \<Rightarrow> folder_descriptor list \<Rightarrow> string \<Rightarrow> int
     \<Rightarrow> DeleteMode property \<Rightarrow> bool
     \<Rightarrow> ((exchange_error + delete_result) \<times> remote_call list) option"
where
  "deleteForMailbox w cfg mbx folders query limit deleteMode simulate =
     (case createService w cfg ''DeleteForMailbox'' (Some (smtpAddress mbx)) of
        Some e \<Rightarrow> Some (Inl e, [])
      | None \<Rightarrow>
          (case deleteLoop w (pageSize cfg) (smtpAddress mbx) query limit folders [] [] [] of
             None \<Rightarrow> None
           | Some (Inl e, calls) \<Rightarrow> Some (Inl e, calls)
           | Some (Inr (matches, deletableIds), calls) \<Rightarrow>
               if \<not> simulate \<and> deletableIds \<noteq> [] then
                 (case DeleteItems w (smtpAddress mbx) deletableIds deleteMode of
                    Rejected \<Rightarrow>
                      Some (Inl (DeleteItemsFailed (smtpAddress mbx)),
                            calls @ [DeleteItemsCall (smtpAddress mbx) deletableIds deleteMode])
                  | Resolved u \<Rightarrow>
                      Some (Inr \<lparr>dr_matches = matches,
                                 dr_deleted = (if simulate then 0 else length deletableIds)\<rparr>,
                            calls @ [DeleteItemsCall (smtpAddress mbx) deletableIds deleteMode]))
               else
                 Some (Inr \<lparr>dr_matches = matches,
                            dr_deleted = (if simulate then 0 else length deletableIds)\<rparr>,
                       calls)))"

subsection \<open>Mailbox tasks and their results\<close>

text \<open>
  A task gives \<open>null\<close>, an outcome object or a failure object. The aggregation reads
  the properties \<open>error\<close>, \<open>mailbox\<close>, \<open>totalMatches\<close> and \<open>deleted\<close> of whatever
  object it is handed; a property an object does not have reads as \<open>undefined\<close>, which
  is falsy and turns a sum into \<open>NaN\<close>. A number is therefore a \<open>nat option\<close>, with
  \<open>None\<close> for \<open>NaN\<close>.
\<close>

record mailbox_outcome =
  mo_mailbox :: string
  mo_displayName :: string
  mo_totalMatches :: nat
  mo_deleted :: "nat option"
  mo_folders :: "string list option"
  mo_matches :: "match_record list"

record mailbox_failure =
  mf_error :: string
  mf_mailbox :: string
  mf_displayName :: string
  mf_details :: exchange_error

datatype task_result = TaskNull | Outcome mailbox_outcome | Failure mailbox_failure

fun r_error :: "task_result \<Rightarrow> string option" where
  "r_error (Failure f) = Some (mf_error f)"
| "r_error (Outcome oc) = None"
| "r_error TaskNull = None"

fun r_mailbox :: "task_result \<Rightarrow> string" where
  "r_mailbox (Failure f) = mf_mailbox f"
| "r_mailbox (Outcome oc) = mo_mailbox oc"
| "r_mailbox TaskNull = []"

fun r_totalMatches :: "task_result \<Rightarrow> nat option" where
  "r_totalMatches (Outcome oc) = Some (mo_totalMatches oc)"
| "r_totalMatches (Failure f) = None"
| "r_totalMatches TaskNull = None"

fun r_deleted :: "task_result \<Rightarrow> nat option" where
  "r_deleted (Outcome oc) = mo_deleted oc"
| "r_deleted (Failure f) = None"
| "r_deleted TaskNull = None"

definition js_add :: "nat option \<Rightarrow> nat option \<Rightarrow> nat option" where
  "js_add a b = (case (a, b) of (Some x, Some y) \<Rightarrow> Some (x + y) | _ \<Rightarrow> None)"

text \<open>\<open>[...new Set(xs)]\<close>: the first occurrence of each element, in order.\<close>

definition uniqueInOrder :: "'a list \<Rightarrow> 'a list" where
  "uniqueInOrder xs = rev (remdups (rev xs))"

text \<open>The body of the task that \<open>searchMessages\<close> queues for one mailbox.\<close>

definition searchTask ::
  "world \<Rightarrow> config \<Rightarrow> folder_descriptor list \<Rightarrow> string \<Rightarrow> int \<Rightarrow> mailbox
     \<Rightarrow> (task_result \<times> remote_call list) option"
where
  "searchTask w cfg resolvedFolders query limit mbx =
     (case collectMatchesForMailbox w cfg mbx resolvedFolders query limit of
        None \<Rightarrow> None
      | Some (Inr matches, calls) \<Rightarrow>
          if matches = [] then Some (TaskNull, calls)
          else Some (Outcome \<lparr>mo_mailbox = smtpAddress mbx,
                               mo_displayName = displayName mbx,
                               mo_totalMatches = length matches,
                               mo_deleted = None,
                               mo_folders = None,
                               mo_matches = matches\<rparr>, calls)
      | Some (Inl e, calls) \<Rightarrow>
          Some (Failure \<lparr>mf_error = error_message e,
                          mf_mailbox = smtpAddress mbx,
                          mf_displayName = displayName mbx,
                          mf_details = e\<rparr>, calls))"

text \<open>The body of the task that \<open>deleteMessages\<close> queues for one mailbox.\<close>

definition deleteTask ::
  "world \<Rightarrow> config \<Rightarrow> folder_descriptor list \<Rightarrow> string \<Rightarrow> int \<Rightarrow> DeleteMode property \<Rightarrow> bool
     \<Rightarrow> mailbox \<Rightarrow> (task_result \<times> remote_call list) option"
where
  "deleteTask w cfg resolvedFolders query limit deleteMode simulate mbx =
     (case deleteForMailbox w cfg mbx resolvedFolders query limit deleteMode simulate of
        None \<Rightarrow> None
      | Some (Inr r, calls) \<Rightarrow>
          if dr_matches r = [] then Some (TaskNull, calls)
          else Some (Outcome \<lparr>mo_mailbox = smtpAddress mbx,
                               mo_displayName = displayName mbx,
                               mo_totalMatches = length (dr_matches r),
                               mo_deleted = Some (dr_deleted r),
                               mo_folders = Some (uniqueInOrder (map m_folder (dr_matches r))),
                               mo_matches = dr_matches r\<rparr>, calls)
      | Some (Inl e, calls) \<Rightarrow>
          Some (Failure \<lparr>mf_error = error_message e,
                          mf_mailbox = smtpAddress mbx,
                          mf_displayName = displayName mbx,
                          mf_details = e\<rparr>, calls))"

subsection \<open>Result aggregator\<close>

text \<open>
  \<open>Array.prototype.sort\<close> with a comparison function is a stable sort: with a
  consistent comparison its result is the one that inserting the elements from the
  right, each before the first element it does not come after, gives.
\<close>

fun insertSorted :: "('a \<Rightarrow> 'a \<Rightarrow> int) \<Rightarrow> 'a \<Rightarrow> 'a list \<Rightarrow> 'a list" where
  "insertSorted cmp x [] = [x]"
| "insertSorted cmp x (y # ys) =
     (if cmp x y \<le> 0 then x # y # ys else y # insertSorted cmp x ys)"

definition js_sort :: "('a \<Rightarrow> 'a \<Rightarrow> int) \<Rightarrow> 'a list \<Rightarrow> 'a list" where
  "js_sort cmp xs = foldr (insertSorted cmp) xs []"

text \<open>\<open>(a, b) => a.mailbox.localeCompare(b.mailbox)\<close>\<close>

definition byMailbox :: "world \<Rightarrow> task_result \<Rightarrow> task_result \<Rightarrow> int" where
  "byMailbox w a b = localeCompare w (r_mailbox a) (r_mailbox b)"

text \<open>The callbacks of the two \<open>results.forEach\<close> loops.\<close>

fun searchCollect ::
  "task_result list \<times> task_result list \<Rightarrow> task_result \<Rightarrow> task_result list \<times> task_result list"
where
  "searchCollect (mailboxResults, failures) TaskNull = (mailboxResults, failures)"
| "searchCollect (mailboxResults, failures) result =
     (if truthy_opt (r_error result) then (mailboxResults, failures @ [result])
      else (mailboxResults @ [result], failures))"

fun deleteCollect ::
  "task_result list \<times> task_result list \<times> nat option \<Rightarrow> task_result
     \<Rightarrow> task_result list \<times> task_result list \<times> nat option"
where
  "deleteCollect (mailboxResults, failures, totalDeleted) TaskNull =
     (mailboxResults, failures, totalDeleted)"
| "deleteCollect (mailboxResults, failures, totalDeleted) result =
     (if truthy_opt (r_error result) then (mailboxResults, failures @ [result], totalDeleted)
      else (mailboxResults @ [result], failures, js_add totalDeleted (r_deleted result)))"

record search_summary =
  ss_totalMailboxesScanned :: nat
  ss_mailboxesWithMatches :: nat
  ss_totalMessages :: "nat option"

record delete_summary =
  ds_totalMailboxesScanned :: nat
  ds_mailboxesWithMatches :: nat
  ds_totalMatches :: "nat option"
  ds_totalDeleted :: "nat option"
  ds_mode :: string
  ds_simulate :: bool

record 's aggregate =
  ag_summary :: 's
  ag_query :: "string option"
  ag_results :: "task_result list"
  ag_failures :: "task_result list"

text \<open>
  \<open>Promise.all(tasks)\<close>: the results of the tasks in the order of the mailboxes,
  once every task has settled; it does not settle when a task never returns. The queue
  bounds how many tasks run at a time and does not change what a task returns.
\<close>

definition awaitAll :: "('r \<times> remote_call list) option list \<Rightarrow> ('r list \<times> remote_call list list) option" where
  "awaitAll tasks = map_option (\<lambda>rs. (map fst rs, map snd rs)) (those tasks)"

definition mailboxLimit :: "config \<Rightarrow> int option \<Rightarrow> int \<Rightarrow> int" where
  "mailboxLimit cfg maxPerMailbox ceiling =
     max 1 (min (case maxPerMailbox of
                   None \<Rightarrow> cfg_maxPerMailbox cfg
                 | Some n \<Rightarrow> if n \<noteq> 0 then n else cfg_maxPerMailbox cfg) ceiling)"

subsection \<open>searchMessages\<close>

record search_filters = aqs_filter +
  sf_folders :: "string list option"
  sf_maxPerMailbox :: "int option"

text \<open>
  The result of a request is an error that fails the whole request, or the aggregate
  together with the remote calls of each mailbox task, in the order of the mailboxes.
\<close>

definition searchMessages ::
  "world \<Rightarrow> ews_lib \<Rightarrow> config \<Rightarrow> search_filters
     \<Rightarrow> (exchange_error + search_summary aggregate \<times> remote_call list list) option"
where
  "searchMessages w lib cfg filters =
     (case getSearchableMailboxes w cfg of
        Inl e \<Rightarrow> Some (Inl e)
      | Inr mailboxes \<Rightarrow>
          (case resolveFolders lib cfg (sf_folders filters) of
             Inl e \<Rightarrow> Some (Inl e)
           | Inr resolvedFolders \<Rightarrow>
               (let limit = mailboxLimit cfg (sf_maxPerMailbox filters) 1000
                in if mailboxes = [] then
                     Some (Inr (\<lparr>ag_summary = \<lparr>ss_totalMailboxesScanned = 0,
                                                 ss_mailboxesWithMatches = 0,
                                                 ss_totalMessages = Some 0\<rparr>,
                                  ag_query = None, ag_results = [], ag_failures = []\<rparr>, []))
                   else
                     (let query = buildAqsQuery (aqs_filter.truncate filters)
                      in case awaitAll (map (searchTask w cfg resolvedFolders query limit)
                                            mailboxes) of
                           None \<Rightarrow> None
                         | Some (results, calls) \<Rightarrow>
                             (let (mailboxResults, failures) = foldl searchCollect ([], []) results;
                                  totalMessages =
                                    foldl (\<lambda>sum mbx. js_add sum (r_totalMatches mbx)) (Some 0)
                                      mailboxResults
                              in Some (Inr
                                   (\<lparr>ag_summary =
                                        \<lparr>ss_totalMailboxesScanned = length mailboxes,
                                         ss_mailboxesWithMatches = length mailboxResults,
                                         ss_totalMessages = totalMessages\<rparr>,
                                     ag_query = Some query,
                                     ag_results = js_sort (byMailbox w) mailboxResults,
                                     ag_failures = failures\<rparr>, calls)))))))"

subsection \<open>deleteMessages\<close>

record delete_filters =
  df_sender :: "string option"
  df_subject :: "string option"
  df_body :: "string option"
  df_receivedFrom :: "js_date option"
  df_receivedTo :: "js_date option"
  df_folders :: "string list option"
  df_maxPerMailbox :: "int option"
  df_deleteMode :: "string option"
  df_simulate :: "bool option"

definition deleteMessages ::
  "world \<Rightarrow> ews_lib \<Rightarrow> config \<Rightarrow> delete_filters
     \<Rightarrow> (exchange_error + delete_summary aggregate \<times> remote_call list list) option"
where
  "deleteMessages w lib cfg filters =
     (let deleteMode = (case df_deleteMode filters of None \<Rightarrow> ''softDelete'' | Some m \<Rightarrow> m);
          simulate = (case df_simulate filters of None \<Rightarrow> True | Some b \<Rightarrow> b)
      in case getSearchableMailboxes w cfg of
        Inl e \<Rightarrow> Some (Inl e)
      | Inr mailboxes \<Rightarrow>
          (case resolveFolders lib cfg (df_folders filters) of
             Inl e \<Rightarrow> Some (Inl e)
           | Inr resolvedFolders \<Rightarrow>
               (let limit = mailboxLimit cfg (df_maxPerMailbox filters) 2000;
                    modeKey = toLowerCase deleteMode;
                    mode = (if truthy_property (deleteModeCode lib)
                                 (get_property DELETE_MODE_MAP modeKey)
                            then the (get_property DELETE_MODE_MAP modeKey)
                            else Own SoftDelete);
                    effectiveModeKey =
                      (if truthy_property (deleteModeCode lib)
                            (get_property DELETE_MODE_MAP modeKey)
                       then modeKey else ''softdelete'')
                in if mailboxes = [] then
                     Some (Inr (\<lparr>ag_summary = \<lparr>ds_totalMailboxesScanned = 0,
                                                 ds_mailboxesWithMatches = 0,
                                                 ds_totalMatches = Some 0,
                                                 ds_totalDeleted = Some 0,
                                                 ds_mode = effectiveModeKey,
                                                 ds_simulate = simulate\<rparr>,
                                  ag_query = None, ag_results = [], ag_failures = []\<rparr>, []))
                   else
                     (let query = buildAqsQuery
                                    \<lparr>q_sender = df_sender filters,
                                     q_subject = df_subject filters,
                                     q_body = df_body filters,
                                     q_keywords = None,
                                     q_receivedFrom = df_receivedFrom filters,
                                     q_receivedTo = df_receivedTo filters,
                                     q_hasAttachments = None,
                                     q_importance = None\<rparr>
                      in case awaitAll (map (deleteTask w cfg resolvedFolders query limit mode
                                               simulate) mailboxes) of
                           None \<Rightarrow> None
                         | Some (results, calls) \<Rightarrow>
                             (let (mailboxResults, failures, totalDeleted) =
                                    foldl deleteCollect ([], [], Some 0) results;
                                  totalMatches =
                                    foldl (\<lambda>sum mbx. js_add sum (r_totalMatches mbx)) (Some 0)
                                      mailboxResults
                              in Some (Inr
                                   (\<lparr>ag_summary =
                                        \<lparr>ds_totalMailboxesScanned = length mailboxes,
                                         ds_mailboxesWithMatches = length mailboxResults,
                                         ds_totalMatches = totalMatches,
                                         ds_totalDeleted = totalDeleted,
                                         ds_mode = effectiveModeKey,
                                         ds_simulate = simulate\<rparr>,
                                     ag_query = Some query,
                                     ag_results = js_sort (byMailbox w) mailboxResults,
                                     ag_failures = failures\<rparr>, calls)))))))"

subsection \<open>Notions used to state the properties of the aggregation\<close>

text \<open>
  The task that \<open>deleteMessages\<close> queues for a mailbox, and the one that
  \<open>searchMessages\<close> queues, as functions of the request.
\<close>

definition deleteTaskFor ::
  "world \<Rightarrow> ews_lib \<Rightarrow> config \<Rightarrow> delete_filters \<Rightarrow> folder_descriptor list \<Rightarrow> mailbox
     \<Rightarrow> (task_result \<times> remote_call list) option"
where
  "deleteTaskFor w lib cfg filters resolvedFolders =
     (let deleteMode = (case df_deleteMode filters of None \<Rightarrow> ''softDelete'' | Some m \<Rightarrow> m);
          simulate = (case df_simulate filters of None \<Rightarrow> True | Some b \<Rightarrow> b);
          modeKey = toLowerCase deleteMode;
          mode = (if truthy_property (deleteModeCode lib) (get_property DELETE_MODE_MAP modeKey)
                  then the (get_property DELETE_MODE_MAP modeKey) else Own SoftDelete)
      in deleteTask w cfg resolvedFolders
           (buildAqsQuery \<lparr>q_sender = df_sender filters, q_subject = df_subject filters,
                            q_body = df_body filters, q_keywords = None,
                            q_receivedFrom = df_receivedFrom filters,
                            q_receivedTo = df_receivedTo filters,
                            q_hasAttachments = None, q_importance = None\<rparr>)
           (mailboxLimit cfg (df_maxPerMailbox filters) 2000) mode simulate)"

definition searchTaskFor ::
  "world \<Rightarrow> config \<Rightarrow> search_filters \<Rightarrow> folder_descriptor list \<Rightarrow> mailbox
     \<Rightarrow> (task_result \<times> remote_call list) option"
where
  "searchTaskFor w cfg filters resolvedFolders =
     searchTask w cfg resolvedFolders (buildAqsQuery (aqs_filter.truncate filters))
       (mailboxLimit cfg (sf_maxPerMailbox filters) 1000)"

text \<open>The result a mailbox's task gave, once it has returned.\<close>

definition resultOf :: "(task_result \<times> remote_call list) option \<Rightarrow> task_result" where
  "resultOf t = (case t of None \<Rightarrow> TaskNull | Some (r, calls) \<Rightarrow> r)"

fun isOutcome :: "task_result \<Rightarrow> bool" where
  "isOutcome (Outcome oc) = True"
| "isOutcome (Failure f) = False"
| "isOutcome TaskNull = False"

fun isFailure :: "task_result \<Rightarrow> bool" where
  "isFailure (Failure f) = True"
| "isFailure (Outcome oc) = False"
| "isFailure TaskNull = False"

text \<open>
  What the aggregation keeps as a result and what it files as a failure: both skip
  \<open>null\<close>, and the \<open>error\<close> property decides between them.
\<close>

definition kept :: "task_result \<Rightarrow> bool" where
  "kept r = (r \<noteq> TaskNull \<and> \<not> truthy_opt (r_error r))"

definition failed :: "task_result \<Rightarrow> bool" where
  "failed r = (r \<noteq> TaskNull \<and> truthy_opt (r_error r))"

text \<open>
  What a task returns for the mailbox with a given address: \<open>null\<close>, an outcome for
  that address with at least one match, or a failure for that address with an error
  message.
\<close>

fun resultFor :: "string \<Rightarrow> task_result \<Rightarrow> bool" where
  "resultFor address TaskNull = True"
| "resultFor address (Outcome oc) =
     (mo_mailbox oc = address \<and> 1 \<le> mo_totalMatches oc
      \<and> mo_totalMatches oc = length (mo_matches oc))"
| "resultFor address (Failure f) = (mf_mailbox f = address \<and> mf_error f \<noteq> [])"

definition deletedCount :: "task_result \<Rightarrow> nat" where
  "deletedCount r = (case r_deleted r of None \<Rightarrow> 0 | Some n \<Rightarrow> n)"

text \<open>
  The resolved mailboxes are partitioned by what their tasks returned: every task result
  belongs to its mailbox; the results are the outcomes, in some order; the failures are
  the failures; and the addresses of the mailboxes are, counted with multiplicity, those
  of the results, those of the failures and those of the mailboxes whose task returned
  \<open>null\<close>.
\<close>

definition partitioned ::
  "mailbox list \<Rightarrow> (mailbox \<Rightarrow> task_result) \<Rightarrow> task_result list \<Rightarrow> task_result list \<Rightarrow> bool"
where
  "partitioned mailboxes result results failures =
     (list_all (\<lambda>m. resultFor (smtpAddress m) (result m)) mailboxes
      \<and> mset results = mset (filter isOutcome (map result mailboxes))
      \<and> failures = filter isFailure (map result mailboxes)
      \<and> mset (map smtpAddress mailboxes)
          = mset (map r_mailbox results) + mset (map r_mailbox failures)
            + mset (map smtpAddress (filter (\<lambda>m. result m = TaskNull) mailboxes)))"

text \<open>The order a comparison function induces on the mailbox addresses of results.\<close>

definition notAfter :: "world \<Rightarrow> task_result \<Rightarrow> task_result \<Rightarrow> bool" where
  "notAfter w a b = (localeCompare w (r_mailbox a) (r_mailbox b) \<le> 0)"

text \<open>
  A list is the stable sort of another by mailbox address: it is ascending in the order of
  the comparison, it holds the same elements, and the elements with the same address
  keep their order.
\<close>

definition sortedStably :: "world \<Rightarrow> task_result list \<Rightarrow> task_result list \<Rightarrow> bool" where
  "sortedStably w input output =
     (sorted_wrt (notAfter w) output
      \<and> mset output = mset input
      \<and> list_all (\<lambda>k. filter (\<lambda>r. r_mailbox r = k) output = filter (\<lambda>r. r_mailbox r = k) input)
           (map r_mailbox input))"

subsection \<open>The comparison named by the specification, and an example world\<close>

text \<open>
  Case-sensitive lexicographic comparison of two strings by their character codes, as a
  comparison function: negative, zero or positive.
\<close>

fun compareCodeUnits :: "string \<Rightarrow> string \<Rightarrow> int" where
  "compareCodeUnits [] [] = 0"
| "compareCodeUnits [] (y # ys) = - 1"
| "compareCodeUnits (x # xs) [] = 1"
| "compareCodeUnits (x # xs) (y # ys) =
     (if (of_char x :: nat) < of_char y then - 1
      else if (of_char y :: nat) < of_char x then 1
      else compareCodeUnits xs ys)"

text \<open>
  A collation of the kind \<open>localeCompare\<close> gives where the host compares by locale:
  letters are compared alphabetically first and by case only to break a tie, lower
  case first.
\<close>

definition compareCollated :: "string \<Rightarrow> string \<Rightarrow> int" where
  "compareCollated a b =
     (if toLowerCase a \<noteq> toLowerCase b then compareCodeUnits (toLowerCase a) (toLowerCase b)
      else compareCodeUnits b a)"

text \<open>
  A comparison function is consistent when the relation ``does not come after'' it
  induces is total and transitive.
\<close>

definition consistentCompare :: "('a \<Rightarrow> 'a \<Rightarrow> int) \<Rightarrow> bool" where
  "consistentCompare cmp =
     ((\<forall>a b. cmp a b \<le> 0 \<or> cmp b a \<le> 0)
      \<and> (\<forall>a b c. cmp a b \<le> 0 \<and> cmp b c \<le> 0 \<longrightarrow> cmp a c \<le> 0))"

abbreviation example_item :: "string \<Rightarrow> ews_item" where
  "example_item uid \<equiv>
     \<lparr>Id = \<lparr>UniqueId = uid, ChangeKey = ''ck''\<rparr>, Subject = Some ''Invoice'',
      FromAddress = Some ''evil@x.com'', SenderAddress = None, DateTimeReceived = None,
      InternetMessageId = None, HasAttachments = False, Size = None, BodyText = None\<rparr>"

text \<open>
  Four searchable mailboxes, in the order the server lists them. \<open>a@x.com\<close> holds three
  matching items served in two pages, \<open>B@x.com\<close> holds one, \<open>d@x.com\<close> none, and no
  client can be set up for \<open>c@x.com\<close>. Bulk deletes succeed.
\<close>

abbreviation example_entry :: "string \<Rightarrow> searchable_mailbox" where
  "example_entry address \<equiv>
     \<lparr>DisplayName = address, PrimarySmtpAddress = address, IsExternalMailbox = False,
      ReferenceId = address, IsSearchable = True\<rparr>"

abbreviation example_world :: "(string \<Rightarrow> string \<Rightarrow> int) \<Rightarrow> world" where
  "example_world cmp \<equiv>
     \<lparr>serviceInit = (\<lambda>operation mbx. mbx \<noteq> Some ''c@x.com''),
      FindItems = (\<lambda>mbx n folder query view.
         if mbx = ''a@x.com'' then
           (if iv_offset view = 0
            then Resolved (Some \<lparr>Items = Some [example_item ''a1'', example_item ''a2''],
                                  MoreAvailable = True, NextPageOffset = 2\<rparr>)
            else Resolved (Some \<lparr>Items = Some [example_item ''a3''],
                                  MoreAvailable = False, NextPageOffset = 3\<rparr>))
         else if mbx = ''B@x.com'' then
           Resolved (Some \<lparr>Items = Some [example_item ''b1''],
                            MoreAvailable = False, NextPageOffset = 1\<rparr>)
         else Resolved (Some \<lparr>Items = Some [], MoreAvailable = False, NextPageOffset = 0\<rparr>)),
      DeleteItems = (\<lambda>mbx ids deleteMode. Resolved ()),
      GetSearchableMailboxes =
        Resolved (Some [example_entry ''a@x.com'', example_entry ''B@x.com'',
                        example_entry ''c@x.com'', example_entry ''d@x.com'']),
      localeCompare = cmp\<rparr>"

text \<open>The directory entries and the folder that the example world resolves to.\<close>

abbreviation example_mailbox :: "string \<Rightarrow> mailbox" where
  "example_mailbox address \<equiv>
     \<lparr>displayName = address, smtpAddress = address, isExternal = False,
      referenceId = address\<rparr>"

abbreviation example_mailboxes :: "mailbox list" where
  "example_mailboxes \<equiv>
     [example_mailbox ''a@x.com'', example_mailbox ''B@x.com'',
      example_mailbox ''c@x.com'', example_mailbox ''d@x.com'']"

abbreviation example_folders :: "folder_descriptor list" where
  "example_folders \<equiv> [\<lparr>fd_name = ''Inbox'', fd_id = Own Inbox\<rparr>]"

abbreviation example_lib :: ews_lib where
  "example_lib \<equiv>
     \<lparr>deleteModeCode = (\<lambda>m. case m of HardDelete \<Rightarrow> 0 | SoftDelete \<Rightarrow> 1
                                | MoveToDeletedItems \<Rightarrow> 2),
      folderNameCode = (\<lambda>f. case f of Inbox \<Rightarrow> 4 | JunkEmail \<Rightarrow> 13 | DeletedItems \<Rightarrow> 2
                                | SentItems \<Rightarrow> 9 | Drafts \<Rightarrow> 3 | ArchiveRoot \<Rightarrow> 20)\<rparr>"

abbreviation example_config :: config where
  "example_config \<equiv>
     \<lparr>cfg_ewsUrl = Some ''https://mail.x.com/EWS/Exchange.asmx'',
      cfg_autodiscoverEmail = None, cfg_username = Some ''svc'', cfg_password = Some ''pw'',
      defaultFolders = [''Inbox''], cfg_maxPerMailbox = 200, pageSize = 50,
      maxConcurrency = 4\<rparr>"

abbreviation example_delete :: "string \<Rightarrow> bool \<Rightarrow> delete_filters" where
  "example_delete deleteMode simulate \<equiv>
     \<lparr>df_sender = Some ''evil@x.com'', df_subject = None, df_body = None,
      df_receivedFrom = None, df_receivedTo = None, df_folders = None,
      df_maxPerMailbox = Some 50, df_deleteMode = Some deleteMode,
      df_simulate = Some simulate\<rparr>"

abbreviation example_search :: search_filters where
  "example_search \<equiv>
     \<lparr>q_sender = Some ''evil@x.com'', q_subject = None, q_body = None, q_keywords = None,
      q_receivedFrom = None, q_receivedTo = None, q_hasAttachments = None,
      q_importance = None, sf_folders = None, sf_maxPerMailbox = Some 50\<rparr>"

section \<open>Request validation (routes/exchangeRoutes.js)\<close>

text \<open>
  A request body is a JSON object; every key missing from it is \<open>undefined\<close>. Keys the
  schema does not name are stripped before validation (\<open>stripUnknown\<close>).
\<close>

datatype json = JNull | JBool bool | JNum int | JStr string | JOther

record payload =
  p_sender :: "json option"
  p_subject :: "json option"
  p_receivedFrom :: "json option"
  p_receivedTo :: "json option"
  p_maxPerMailbox :: "json option"
  p_simulate :: "json option"

text \<open>
  The checks and coercions of the validation library that the schemas rely on:
  whether a string is an e-mail address, the time value (milliseconds) of a value
  accepted as an ISO date, the value of one accepted as an integer, and of one accepted
  as a boolean.
\<close>

record joi_lib =
  isEmail :: "string \<Rightarrow> bool"
  isoDate :: "json \<Rightarrow> int option"
  integerNumber :: "json \<Rightarrow> int option"
  booleanValue :: "json \<Rightarrow> bool option"

text \<open>A schema, as far as the two filter schemas differ.\<close>

record schema =
  senderRequired :: bool
  simulateKey :: bool

definition filterBaseSchema :: schema where
  "filterBaseSchema = \<lparr>senderRequired = False, simulateKey = False\<rparr>"

text \<open>\<open>.fork(["sender"], (schema) => schema.required())\<close>\<close>

definition fork_sender_required :: "schema \<Rightarrow> schema" where
  "fork_sender_required sc = sc\<lparr>senderRequired := True\<rparr>"

text \<open>\<open>.keys({ simulate: Joi.boolean().default(true) })\<close>\<close>

definition keys_simulate :: "schema \<Rightarrow> schema" where
  "keys_simulate sc = sc\<lparr>simulateKey := True\<rparr>"

definition deleteSchema :: schema where
  "deleteSchema = keys_simulate (fork_sender_required filterBaseSchema)"

record validated =
  v_sender :: "string option"
  v_subject :: "string option"
  v_receivedFrom :: "int option"
  v_receivedTo :: "int option"
  v_maxPerMailbox :: "int option"
  v_simulate :: "bool option"

text \<open>The outcome of one key: an error code, or the (possibly absent) value.\<close>

datatype 'a checked = Bad string | Good "'a option"

text \<open>\<open>Joi.string().email({ tlds: { allow: false } })\<close>, optional or required.\<close>

definition check_sender :: "joi_lib \<Rightarrow> bool \<Rightarrow> json option \<Rightarrow> string checked" where
  "check_sender lib required v =
     (case v of
        None \<Rightarrow> if required then Bad ''any.required'' else Good None
      | Some (JStr s) \<Rightarrow>
          if s = [] then Bad ''string.empty''
          else if isEmail lib s then Good (Some s) else Bad ''string.email''
      | Some _ \<Rightarrow> Bad ''string.base'')"

text \<open>\<open>Joi.string().max(256)\<close>\<close>

definition check_subject :: "json option \<Rightarrow> string checked" where
  "check_subject v =
     (case v of
        None \<Rightarrow> Good None
      | Some (JStr s) \<Rightarrow>
          if s = [] then Bad ''string.empty''
          else if length s \<le> 256 then Good (Some s) else Bad ''string.max''
      | Some _ \<Rightarrow> Bad ''string.base'')"

text \<open>\<open>Joi.date().iso()\<close>\<close>

definition check_date :: "joi_lib \<Rightarrow> json option \<Rightarrow> int checked" where
  "check_date lib v =
     (case v of
        None \<Rightarrow> Good None
      | Some j \<Rightarrow> (case isoDate lib j of None \<Rightarrow> Bad ''date.format'' | Some t \<Rightarrow> Good (Some t)))"

text \<open>\<open>Joi.number().integer().min(1).max(2000)\<close>\<close>

definition check_maxPerMailbox :: "joi_lib \<Rightarrow> json option \<Rightarrow> int checked" where
  "check_maxPerMailbox lib v =
     (case v of
        None \<Rightarrow> Good None
      | Some j \<Rightarrow>
          (case integerNumber lib j of
             None \<Rightarrow> Bad ''number.base''
           | Some n \<Rightarrow>
               if n < 1 then Bad ''number.min''
               else if 2000 < n then Bad ''number.max'' else Good (Some n)))"

text \<open>
  \<open>Joi.boolean().default(true)\<close>, a key of the delete schema only; the base schema does
  not know the key, so it is stripped there.
\<close>

definition check_simulate :: "joi_lib \<Rightarrow> bool \<Rightarrow> json option \<Rightarrow> bool checked" where
  "check_simulate lib known v =
     (if \<not> known then Good None
      else case v of
        None \<Rightarrow> Good (Some True)
      | Some j \<Rightarrow> (case booleanValue lib j of None \<Rightarrow> Bad ''boolean.base'' | Some b \<Rightarrow> Good (Some b)))"

definition errors_of :: "'a checked \<Rightarrow> string list" where
  "errors_of c = (case c of Bad e \<Rightarrow> [e] | Good _ \<Rightarrow> [])"

definition value_of :: "'a checked \<Rightarrow> 'a option" where
  "value_of c = (case c of Bad _ \<Rightarrow> None | Good v \<Rightarrow> v)"

text \<open>
  The custom rule \<open>filter requirement\<close> of the base schema, which the delete schema
  inherits: it sees the object after its keys have been validated.
\<close>

definition filterRequirement :: "validated \<Rightarrow> string option" where
  "filterRequirement v =
     (let hasPrimaryFilter = (truthy_opt (v_sender v) \<or> truthy_opt (v_subject v))
      in if \<not> hasPrimaryFilter then Some ''any.custom''
         else case (v_receivedFrom v, v_receivedTo v) of
                (Some a, Some b) \<Rightarrow> if a > b then Some ''date.max'' else None
              | _ \<Rightarrow> None)"

text \<open>
  \<open>schema.validateAsync(body, { abortEarly: false, stripUnknown: true })\<close>: all key
  errors are collected; the custom rule runs on an object whose keys are valid. The
  result is the list of error codes (the request is answered with status 400) or the
  validated, converted body.
\<close>

definition validateBody :: "joi_lib \<Rightarrow> schema \<Rightarrow> payload \<Rightarrow> string list + validated" where
  "validateBody lib sc p =
     (let sender = check_sender lib (senderRequired sc) (p_sender p);
          subject = check_subject (p_subject p);
          receivedFrom = check_date lib (p_receivedFrom p);
          receivedTo = check_date lib (p_receivedTo p);
          maxPerMailbox = check_maxPerMailbox lib (p_maxPerMailbox p);
          simulate = check_simulate lib (simulateKey sc) (p_simulate p);
          keyErrors = errors_of sender @ errors_of subject @ errors_of receivedFrom
                        @ errors_of receivedTo @ errors_of maxPerMailbox @ errors_of simulate;
          v = \<lparr>v_sender = value_of sender, v_subject = value_of subject,
               v_receivedFrom = value_of receivedFrom, v_receivedTo = value_of receivedTo,
               v_maxPerMailbox = value_of maxPerMailbox, v_simulate = value_of simulate\<rparr>
      in if keyErrors \<noteq> [] then Inl keyErrors
         else case filterRequirement v of Some e \<Rightarrow> Inl [e] | None \<Rightarrow> Inr v)"

definition accepts :: "joi_lib \<Rightarrow> schema \<Rightarrow> payload \<Rightarrow> bool" where
  "accepts lib sc p = (case validateBody lib sc p of Inl _ \<Rightarrow> False | Inr _ \<Rightarrow> True)"

text \<open>
  The fields other than sender and subject are in order: each passes its key rule and
  the date range is not reversed.
\<close>

definition secondary_fields_ok :: "joi_lib \<Rightarrow> schema \<Rightarrow> payload \<Rightarrow> bool" where
  "secondary_fields_ok lib sc p =
     (errors_of (check_date lib (p_receivedFrom p)) = []
      \<and> errors_of (check_date lib (p_receivedTo p)) = []
      \<and> errors_of (check_maxPerMailbox lib (p_maxPerMailbox p)) = []
      \<and> errors_of (check_simulate lib (simulateKey sc) (p_simulate p)) = []
      \<and> (case (value_of (check_date lib (p_receivedFrom p)),
                value_of (check_date lib (p_receivedTo p))) of
            (Some a, Some b) \<Rightarrow> a \<le> b
          | _ \<Rightarrow> True))"

text \<open>A sender, or a subject, that is present and passes its own key rule.\<close>

definition sender_present :: "joi_lib \<Rightarrow> payload \<Rightarrow> bool" where
  "sender_present lib p =
     (case p_sender p of Some (JStr s) \<Rightarrow> s \<noteq> [] \<and> isEmail lib s | _ \<Rightarrow> False)"

definition subject_present :: "payload \<Rightarrow> bool" where
  "subject_present p =
     (case p_subject p of Some (JStr s) \<Rightarrow> s \<noteq> [] \<and> length s \<le> 256 | _ \<Rightarrow> False)"

definition subject_valid_or_absent :: "payload \<Rightarrow> bool" where
  "subject_valid_or_absent p = (p_subject p = None \<or> subject_present p)"

definition sender_valid_or_absent :: "joi_lib \<Rightarrow> payload \<Rightarrow> bool" where
  "sender_valid_or_absent lib p = (p_sender p = None \<or> sender_present lib p)"

section \<open>Purge operations and their registry (routes/exchangeRoutes.js)\<close>

text \<open>
  The objects the purge route shares between its handlers and the cancel route live in a
  store: child process handles and purge contexts, each at an address. The runtime
  records the end of a child process in its handle: in \<open>exitCode\<close> when the process
  exits with a code, and in \<open>signalCode\<close>, leaving \<open>exitCode\<close> \<open>null\<close>, when it is
  ended by a signal (the close handler takes both, \<open>(code, signal)\<close>). Both are
  \<open>null\<close> while the process runs. The routes read \<open>exitCode\<close> only.
\<close>

record child_process =
  exitCode :: "int option"
  signalCode :: "string option"


record purge_context =
  pc_requestId :: string
  pc_child :: "nat option"
  pc_cancelled :: bool
  pc_cancelReason :: "string option"
  pc_wantsStream :: bool

text \<open>A point in time: its time value and its \<open>toISOString()\<close> text.\<close>

record instant =
  epochMs :: int
  isoText :: string

record purge_request =
  senderEmail :: string
  subjectContains :: "string option"
  subjectEqual :: "string option"
  pr_receivedFrom :: "instant option"
  pr_receivedTo :: "instant option"
  pr_simulate :: bool
  allowHardDelete :: bool
  pr_method :: string
  daysBack :: int

record request_payload =
  rp_senderEmail :: string
  rp_subjectContains :: "string option"
  rp_subjectEqual :: "string option"
  rp_simulate :: bool
  rp_allowHardDelete :: bool
  rp_mode :: string
  rp_method :: string
  rp_daysBack :: int
  rp_receivedFrom :: "string option"
  rp_receivedTo :: "string option"

record log_entry =
  le_timestamp :: string
  le_requestId :: string
  le_senderEmail :: string
  le_subjectMode :: string
  le_subjectValue :: "string option"
  le_receivedFrom :: "string option"
  le_receivedTo :: "string option"
  le_simulate :: bool
  le_allowHardDelete :: bool
  le_mode :: string
  le_method :: string
  le_daysBack :: int
  le_exitCode :: "int option"
  le_exitSignal :: "string option"
  le_status :: string
  le_cancelled :: bool
  le_cancelReason :: "string option"
  le_completedAt :: string
  le_durationMs :: int
  le_logFile :: string
  le_stdoutLength :: nat
  le_stderrLength :: nat
  le_requestPayload :: request_payload
  le_affectedMailboxes :: "string list"

text \<open>A stored record: the entry with the identifier the log store gave it.\<close>

record stored_entry =
  se_id :: string
  se_timestamp :: string
  se_entry :: log_entry

text \<open>What a purge request's handlers send to its client.\<close>

record terminal_report =
  tr_requestId :: string
  tr_exitCode :: "int option"
  tr_status :: string
  tr_cancelled :: bool
  tr_cancelReason :: "string option"
  tr_logFile :: string
  tr_simulate :: bool
  tr_logEntry :: "stored_entry + log_entry"

datatype outgoing =
    SseStart
  | SseChunk string string
  | SseError string string
  | SseEnd terminal_report
  | EndOfStream
  | JsonReport string string terminal_report
  | NextError nat string string

record server_state =
  children :: "nat \<Rightarrow> child_process"
  contexts :: "nat \<Rightarrow> purge_context"
  activePurges :: "string \<rightharpoonup> nat"
  killCalls :: "nat list"
  logFile :: "stored_entry list"
  appendCalls :: "log_entry list"
  outbox :: "(string \<times> outgoing) list"

subsection \<open>The cancel route\<close>





subsection \<open>The purge route\<close>

text \<open>
  What the handlers of one purge request hold in their closure: the request, the
  addresses of its context and of its child process, and the values computed before the
  process was spawned.
\<close>

record purge_op =
  op_requestId :: string
  op_context :: nat
  op_child :: nat
  op_request :: purge_request
  op_subjectMode :: string
  op_subjectValue :: "string option"
  op_startedAt :: instant
  op_logPath :: string
  op_wantsStream :: bool
  op_stdout :: "string list"
  op_stderr :: "string list"

text \<open>
  After \<open>spawn\<close> has returned the child handle: the context gets the handle and is put
  into the registry under the request's identifier; a streaming client is sent the
  \<open>start\<close> event.
\<close>

definition registerPurge :: "purge_op \<Rightarrow> server_state \<Rightarrow> server_state" where
  "registerPurge op st =
     (let purgeContext = \<lparr>pc_requestId = op_requestId op, pc_child = Some (op_child op),
                           pc_cancelled = False, pc_cancelReason = None,
                           pc_wantsStream = op_wantsStream op\<rparr>;
          st = st\<lparr>contexts := (contexts st)(op_context op := purgeContext),
                  activePurges := (activePurges st)(op_requestId op \<mapsto> op_context op)\<rparr>
      in if op_wantsStream op
         then st\<lparr>outbox := outbox st @ [(op_requestId op, SseStart)]\<rparr> else st)"

text \<open>\<open>req.on("close")\<close>: the client went away.\<close>

definition onRequestClose :: "purge_op \<Rightarrow> server_state \<Rightarrow> server_state" where
  "onRequestClose op st =
     (if op_wantsStream op \<and> exitCode (children st (op_child op)) = None then
        (let purgeContext = contexts st (op_context op);
             purgeContext = purgeContext\<lparr>pc_cancelled := True\<rparr>;
             purgeContext = purgeContext\<lparr>pc_cancelReason :=
                              (if truthy_opt (pc_cancelReason purgeContext)
                               then pc_cancelReason purgeContext
                               else Some ''connection_closed'')\<rparr>
         in st\<lparr>contexts := (contexts st)(op_context op := purgeContext),
               killCalls := killCalls st @ [op_child op]\<rparr>)
      else st)"

text \<open>\<open>child.on("error")\<close>\<close>

definition onChildError :: "purge_op \<Rightarrow> string \<Rightarrow> server_state \<Rightarrow> server_state" where
  "onChildError op message st =
     (let st = st\<lparr>activePurges := (activePurges st)(op_requestId op := None)\<rparr>;
          st = st\<lparr>contexts := (contexts st)(op_context op :=
                     (contexts st (op_context op))\<lparr>pc_child := None\<rparr>)\<rparr>
      in if op_wantsStream op
         then st\<lparr>outbox := outbox st @
                   [(op_requestId op, SseError ''Failed to launch PowerShell'' message),
                    (op_requestId op, EndOfStream)]\<rparr>
         else st\<lparr>outbox := outbox st @
                   [(op_requestId op, NextError 500 ''Failed to launch PowerShell'' message)]\<rparr>)"

text \<open>
  The log store (utils/logStore.js): \<open>appendLogEntry\<close> builds the record
  \<open>{ id: entry.id || randomUUID(), timestamp: entry.timestamp || now, ...entry }\<close>
  and appends it as one line to the log file; the write can fail. An entry of the purge
  route has no \<open>id\<close> and has a \<open>timestamp\<close>, and the entry's own properties are
  spread last: the record gets a fresh identifier and keeps the entry's timestamp.
\<close>

record log_env =
  storageWritable :: bool
  randomUUID :: string
  completedAt :: instant
  mineAffected :: "string \<Rightarrow> string list"

definition appendLogEntry :: "log_env \<Rightarrow> log_entry \<Rightarrow> stored_entry list \<Rightarrow> (stored_entry \<times> stored_entry list) reply" where
  "appendLogEntry env entry file =
     (let record = \<lparr>se_id = randomUUID env,
                      se_timestamp = le_timestamp entry,
                      se_entry = entry\<rparr>
      in if storageWritable env then Resolved (record, file @ [record]) else Rejected)"

text \<open>
  The status of a closed purge process, and the entry assembled for it.
  \<open>mineAffected\<close> stands for the three pattern scans over the collected standard
  output that give \<open>affectedMailboxes\<close>.
\<close>

definition purgeStatus :: "bool \<Rightarrow> int option \<Rightarrow> bool \<Rightarrow> string" where
  "purgeStatus wasCancelled code simulate =
     (if wasCancelled then ''cancelled''
      else if code = Some 0 then (if simulate then ''simulated'' else ''completed'')
      else ''failed'')"

definition or_null :: "string option \<Rightarrow> string option" where
  "or_null v = (if truthy_opt v then v else None)"

definition assembleLogEntry :: "log_env \<Rightarrow> purge_op \<Rightarrow> purge_context \<Rightarrow> int option \<Rightarrow> string option \<Rightarrow> log_entry" where
  "assembleLogEntry env op purgeContext code signal =
     (let rq = op_request op;
          stdoutText = concat (op_stdout op);
          stderrText = concat (op_stderr op);
          executionMode = (if pr_simulate rq then ''simulation''
                           else if allowHardDelete rq then ''hard-delete'' else ''soft-delete'');
          exitSignal = or_null signal;
          wasCancelled = pc_cancelled purgeContext;
          status = purgeStatus wasCancelled code (pr_simulate rq);
          requestPayload =
            \<lparr>rp_senderEmail = senderEmail rq,
             rp_subjectContains = or_null (subjectContains rq),
             rp_subjectEqual = or_null (subjectEqual rq),
             rp_simulate = pr_simulate rq,
             rp_allowHardDelete = allowHardDelete rq,
             rp_mode = executionMode,
             rp_method = pr_method rq,
             rp_daysBack = daysBack rq,
             rp_receivedFrom = map_option isoText (pr_receivedFrom rq),
             rp_receivedTo = map_option isoText (pr_receivedTo rq)\<rparr>
      in \<lparr>le_timestamp = isoText (op_startedAt op),
          le_requestId = op_requestId op,
          le_senderEmail = senderEmail rq,
          le_subjectMode = op_subjectMode op,
          le_subjectValue = op_subjectValue op,
          le_receivedFrom = rp_receivedFrom requestPayload,
          le_receivedTo = rp_receivedTo requestPayload,
          le_simulate = pr_simulate rq,
          le_allowHardDelete = allowHardDelete rq,
          le_mode = executionMode,
          le_method = pr_method rq,
          le_daysBack = daysBack rq,
          le_exitCode = code,
          le_exitSignal = exitSignal,
          le_status = status,
          le_cancelled = wasCancelled,
          le_cancelReason = or_null (pc_cancelReason purgeContext),
          le_completedAt = isoText (completedAt env),
          le_durationMs = epochMs (completedAt env) - epochMs (op_startedAt op),
          le_logFile = op_logPath op,
          le_stdoutLength = length stdoutText,
          le_stderrLength = length stderrText,
          le_requestPayload = requestPayload,
          le_affectedMailboxes = mineAffected env stdoutText\<rparr>)"

text \<open>
  \<open>child.on("close")\<close>: the process has ended and its streams are closed. The
  entry is assembled from the context as it is when the handler starts, the registry
  entry is deleted, the entry is handed to the log store once, and the client gets the
  \<open>end\<close> event or the response. The handler is one step here; in the source it
  waits for the log store before it answers the client.
\<close>

definition onChildClose :: "log_env \<Rightarrow> purge_op \<Rightarrow> int option \<Rightarrow> string option \<Rightarrow> server_state \<Rightarrow> server_state" where
  "onChildClose env op code signal st =
     (let purgeContext = contexts st (op_context op);
          logEntry = assembleLogEntry env op purgeContext code signal;
          st = st\<lparr>activePurges := (activePurges st)(op_requestId op := None)\<rparr>;
          st = st\<lparr>contexts := (contexts st)(op_context op := purgeContext\<lparr>pc_child := None\<rparr>)\<rparr>;
          st = st\<lparr>appendCalls := appendCalls st @ [logEntry]\<rparr>;
          (persistedLog, st) =
             (case appendLogEntry env logEntry (logFile st) of
                Rejected \<Rightarrow> (Inr logEntry, st)
              | Resolved (record, file) \<Rightarrow> (Inl record, st\<lparr>logFile := file\<rparr>));
          report = \<lparr>tr_requestId = op_requestId op,
                    tr_exitCode = le_exitCode logEntry,
                    tr_status = le_status logEntry,
                    tr_cancelled = le_cancelled logEntry,
                    tr_cancelReason = or_null (pc_cancelReason purgeContext),
                    tr_logFile = op_logPath op,
                    tr_simulate = pr_simulate (op_request op),
                    tr_logEntry = persistedLog\<rparr>
      in if op_wantsStream op
         then st\<lparr>outbox := outbox st @
                   [(op_requestId op, SseEnd report), (op_requestId op, EndOfStream)]\<rparr>
         else st\<lparr>outbox := outbox st @
                   [(op_requestId op,
                     JsonReport (concat (op_stdout op)) (concat (op_stderr op)) report)]\<rparr>)"

subsection \<open>An example purge operation\<close>

text \<open>
  A purge request that is not a dry run and does not stream, on a server with nothing in
  flight, and a log store that accepts the write or not.
\<close>

abbreviation example_op :: purge_op where
  "example_op \<equiv>
     \<lparr>op_requestId = ''op-1'', op_context = 1, op_child = 7,
      op_request = \<lparr>senderEmail = ''evil@x.com'', subjectContains = None,
                      subjectEqual = None, pr_receivedFrom = None, pr_receivedTo = None,
                      pr_simulate = False, allowHardDelete = False,
                      pr_method = ''ComplianceSearch'', daysBack = 30\<rparr>,
      op_subjectMode = ''none'', op_subjectValue = None,
      op_startedAt = \<lparr>epochMs = 1000, isoText = ''2024-01-01T00:00:01.000Z''\<rparr>,
      op_logPath = ''EmailDeletion_1000.log'', op_wantsStream = False,
      op_stdout = [''Deleted 3 items from user1@x.com''], op_stderr = []\<rparr>"

abbreviation idle_server :: server_state where
  "idle_server \<equiv>
     \<lparr>children = (\<lambda>a. \<lparr>exitCode = None, signalCode = None\<rparr>),
      contexts = (\<lambda>a. \<lparr>pc_requestId = [], pc_child = None, pc_cancelled = False,
                         pc_cancelReason = None, pc_wantsStream = False\<rparr>),
      activePurges = Map.empty, killCalls = [], logFile = [], appendCalls = [],
      outbox = []\<rparr>"

abbreviation example_log_env :: "bool \<Rightarrow> log_env" where
  "example_log_env writable \<equiv>
     \<lparr>storageWritable = writable, randomUUID = ''id-1'',
      completedAt = \<lparr>epochMs = 5000, isoText = ''2024-01-01T00:00:05.000Z''\<rparr>,
      mineAffected = (\<lambda>t. [''user1@x.com''])\<rparr>"

section \<open>Properties of the query compiler\<close>

lemma join_quoted_nonempty:
  "ks \<noteq> [] \<Longrightarrow> join sep (map quoted ks) \<noteq> []"
  by (cases "(sep, map quoted ks)" rule: join.cases) (auto simp: quoted_def)

lemma push_text_clause:
  "(if truthy_opt v then cs @ [field @ quoted (the v)] else cs)
     = cs @ List.map_filter id [text_clause field v]"
  by (auto simp: truthy_opt_def truthy_str_def text_clause_def List.map_filter_def
      split: option.splits)

lemma push_keywords_clause:
  "(case v of None \<Rightarrow> cs
    | Some keywords \<Rightarrow>
        if keywords \<noteq> [] then
          (let keywordString = join '' AND '' (map quoted (filter truthy_str keywords))
           in if truthy_str keywordString then cs @ [keywordString] else cs)
        else cs)
     = cs @ List.map_filter id [keywords_clause v]"
proof (cases v)
  case None
  then show ?thesis by (simp add: keywords_clause_def List.map_filter_def)
next
  case (Some ks)
  show ?thesis
  proof (cases "filter (\<lambda>k. k \<noteq> []) ks")
    case Nil
    then have "filter truthy_str ks = []"
      by (simp add: truthy_str_def[abs_def])
    with Nil Some show ?thesis
      by (simp add: keywords_clause_def List.map_filter_def truthy_str_def)
  next
    case (Cons k ks')
    then have f: "filter truthy_str ks = k # ks'"
      by (simp add: truthy_str_def[abs_def])
    have ne: "ks \<noteq> []" using Cons by auto
    have "join '' AND '' (map quoted (k # ks')) \<noteq> []"
      by (rule join_quoted_nonempty) simp
    with Cons Some f ne show ?thesis
      by (simp add: keywords_clause_def List.map_filter_def truthy_str_def)
  qed
qed

lemma push_date_clause:
  "(if truthy_opt d then cs @ [rel @ the d] else cs)
     = cs @ List.map_filter id [date_part_clause rel d]"
  by (auto simp: truthy_opt_def truthy_str_def date_part_clause_def List.map_filter_def
      split: option.splits)

lemma push_attachment_clause:
  "(case v of None \<Rightarrow> cs | Some b \<Rightarrow> cs @ [''hasattachment:'' @ bool_text b])
     = cs @ List.map_filter id [attachment_clause v]"
  by (auto simp: attachment_clause_def List.map_filter_def split: option.splits)

lemma push_importance_clause:
  "(if truthy_opt v then cs @ [''importance:'' @ toLowerCase (the v)] else cs)
     = cs @ List.map_filter id [importance_clause v]"
  by (auto simp: truthy_opt_def truthy_str_def importance_clause_def List.map_filter_def
      split: option.splits)

lemma map_filter_id_Cons:
  "List.map_filter id (x # y # ys) = List.map_filter id [x] @ List.map_filter id (y # ys)"
  by (cases x) (simp_all add: List.map_filter_def)

text \<open>
  C7. For every filter the compiler returns one string: the clauses that apply, in the
  fixed order sender, subject, body, keywords (the keywords themselves joined by
  \<open>AND\<close>), received-after, received-before, attachment flag, importance, joined by
  \<open>AND\<close>; when no clause applies it returns the default clause \<open>kind:email\<close>.
\<close>

theorem buildAqsQuery_clause_order:
  "buildAqsQuery f =
     (if applicable_clauses f = [] then ''kind:email''
      else join '' AND '' (applicable_clauses f))"
proof -
  have "applicable_clauses f =
          List.map_filter id [text_clause ''from:'' (q_sender f)]
        @ List.map_filter id [text_clause ''subject:'' (q_subject f)]
        @ List.map_filter id [text_clause ''body:'' (q_body f)]
        @ List.map_filter id [keywords_clause (q_keywords f)]
        @ List.map_filter id [date_clause ''received>='' (q_receivedFrom f)]
        @ List.map_filter id [date_clause ''received<='' (q_receivedTo f)]
        @ List.map_filter id [attachment_clause (q_hasAttachments f)]
        @ List.map_filter id [importance_clause (q_importance f)]"
    unfolding applicable_clauses_def
    by (simp only: map_filter_id_Cons)
  moreover have "buildAqsQuery f =
      (let cs = [] @ List.map_filter id [text_clause ''from:'' (q_sender f)]
        @ List.map_filter id [text_clause ''subject:'' (q_subject f)]
        @ List.map_filter id [text_clause ''body:'' (q_body f)]
        @ List.map_filter id [keywords_clause (q_keywords f)]
        @ List.map_filter id [date_clause ''received>='' (q_receivedFrom f)]
        @ List.map_filter id [date_clause ''received<='' (q_receivedTo f)]
        @ List.map_filter id [attachment_clause (q_hasAttachments f)]
        @ List.map_filter id [importance_clause (q_importance f)]
       in if cs \<noteq> [] then join '' AND '' cs else DEFAULT_QUERY)"
    unfolding buildAqsQuery_def
    apply (simp only: push_text_clause push_keywords_clause push_date_clause
        push_attachment_clause push_importance_clause)
    apply (simp only: Let_def date_clause_def append_assoc)
    done
  ultimately show ?thesis
    by (simp add: DEFAULT_QUERY_def)
qed

text \<open>
  A filter with every kind of clause but body and received-before, one of its keywords
  empty; and the filter without any field.
\<close>

theorem buildAqsQuery_clause_order_witness:
  "buildAqsQuery
     \<lparr>q_sender = Some ''evil@x.com'', q_subject = Some ''Invoice'', q_body = None,
      q_keywords = Some [''urgent'', [], ''wire''],
      q_receivedFrom = Some (DateISO ''2024-01-01T00:00:00.000Z''), q_receivedTo = None,
      q_hasAttachments = Some True, q_importance = Some ''High''\<rparr>
     = ''from:'' @ quoted ''evil@x.com'' @ '' AND subject:'' @ quoted ''Invoice''
       @ '' AND '' @ quoted ''urgent'' @ '' AND '' @ quoted ''wire''
       @ '' AND received>=2024-01-01 AND hasattachment:true AND importance:high''
   \<and> buildAqsQuery
       \<lparr>q_sender = None, q_subject = None, q_body = None, q_keywords = None,
        q_receivedFrom = None, q_receivedTo = None, q_hasAttachments = None,
        q_importance = None\<rparr>
     = ''kind:email''"
  unfolding buildAqsQuery_clause_order
  by code_simp

section \<open>Properties of request validation\<close>

lemma check_sender_ok:
  "errors_of (check_sender lib req (p_sender p)) = []
     \<longleftrightarrow> (if req then sender_present lib p else sender_valid_or_absent lib p)"
  by (auto simp: check_sender_def errors_of_def sender_present_def sender_valid_or_absent_def
      split: option.splits json.splits)

lemma check_sender_value:
  "sender_present lib p \<Longrightarrow> truthy_opt (value_of (check_sender lib req (p_sender p)))"
  by (auto simp: check_sender_def value_of_def sender_present_def truthy_opt_def truthy_str_def
      split: option.splits json.splits)

lemma check_sender_absent:
  "p_sender p = None \<Longrightarrow> value_of (check_sender lib False (p_sender p)) = None"
  by (simp add: check_sender_def value_of_def)

lemma check_subject_ok:
  "errors_of (check_subject (p_subject p)) = [] \<longleftrightarrow> subject_valid_or_absent p"
  by (auto simp: check_subject_def errors_of_def subject_present_def subject_valid_or_absent_def
      split: option.splits json.splits)

lemma check_subject_value:
  "errors_of (check_subject (p_subject p)) = []
     \<Longrightarrow> truthy_opt (value_of (check_subject (p_subject p))) \<longleftrightarrow> subject_present p"
  by (auto simp: check_subject_def errors_of_def value_of_def subject_present_def truthy_opt_def
      truthy_str_def split: option.splits json.splits if_splits)

lemma accepts_iff:
  "accepts lib sc p \<longleftrightarrow>
     errors_of (check_sender lib (senderRequired sc) (p_sender p)) = []
     \<and> errors_of (check_subject (p_subject p)) = []
     \<and> (truthy_opt (value_of (check_sender lib (senderRequired sc) (p_sender p)))
          \<or> truthy_opt (value_of (check_subject (p_subject p))))
     \<and> secondary_fields_ok lib sc p"
  unfolding accepts_def validateBody_def Let_def filterRequirement_def secondary_fields_ok_def
  by (auto split: option.splits sum.splits simp: not_le)

text \<open>
  C9, as amended. The delete schema makes the sender a required key: a delete request
  is accepted exactly when its sender is present (a non-empty string that is an e-mail
  address), its subject is absent or valid, and its other fields are in order. A subject
  does not stand in for a missing sender.
\<close>

theorem deleteSchema_accepts_iff_sender:
  "accepts lib deleteSchema p \<longleftrightarrow>
     sender_present lib p \<and> subject_valid_or_absent p \<and> secondary_fields_ok lib deleteSchema p"
proof -
  have req: "senderRequired deleteSchema"
    by (simp add: deleteSchema_def keys_simulate_def fork_sender_required_def)
  show ?thesis
    unfolding accepts_iff check_subject_ok
    using check_sender_ok[of lib True p] check_sender_value[of lib p True] req
    by auto
qed

text \<open>
  The base schema, which the search route uses, is the one that asks for at least one of
  sender and subject.
\<close>

lemma filterBaseSchema_accepts_iff:
  "accepts lib filterBaseSchema p \<longleftrightarrow>
     (sender_present lib p \<or> subject_present p)
     \<and> sender_valid_or_absent lib p \<and> subject_valid_or_absent p
     \<and> secondary_fields_ok lib filterBaseSchema p"
proof -
  have req: "\<not> senderRequired filterBaseSchema"
    by (simp add: filterBaseSchema_def)
  have sv: "sender_valid_or_absent lib p \<Longrightarrow>
      truthy_opt (value_of (check_sender lib False (p_sender p))) \<longleftrightarrow> sender_present lib p"
    by (auto simp: check_sender_def value_of_def sender_present_def sender_valid_or_absent_def
        truthy_opt_def truthy_str_def split: option.splits json.splits)
  show ?thesis
    unfolding accepts_iff check_subject_ok
    using check_sender_ok[of lib False p] check_subject_value[of p] check_subject_ok[of p] sv req
    by auto
qed

text \<open>
  C9 as the specification states it fails: a delete request with a subject and no sender
  has one of the two, and is rejected with the error \<open>any.required\<close>.
\<close>

theorem deleteSchema_subject_only_rejected:
  "subject_present
     \<lparr>p_sender = None, p_subject = Some (JStr ''Invoice''), p_receivedFrom = None,
      p_receivedTo = None, p_maxPerMailbox = None, p_simulate = None\<rparr>
   \<and> validateBody
       \<lparr>isEmail = (\<lambda>s. CHR ''@'' \<in> set s), isoDate = (\<lambda>j. None),
        integerNumber = (\<lambda>j. case j of JNum n \<Rightarrow> Some n | _ \<Rightarrow> None),
        booleanValue = (\<lambda>j. case j of JBool b \<Rightarrow> Some b | _ \<Rightarrow> None)\<rparr>
       deleteSchema
       \<lparr>p_sender = None, p_subject = Some (JStr ''Invoice''), p_receivedFrom = None,
        p_receivedTo = None, p_maxPerMailbox = None, p_simulate = None\<rparr>
     = Inl [''any.required'']"
  by (simp add: subject_present_def validateBody_def deleteSchema_def keys_simulate_def
      fork_sender_required_def filterBaseSchema_def check_sender_def check_subject_def
      check_date_def check_maxPerMailbox_def check_simulate_def errors_of_def value_of_def)


text \<open>A delete request that names its sender is accepted.\<close>

theorem deleteSchema_accepts_iff_sender_witness:
  "accepts
     \<lparr>isEmail = (\<lambda>s. CHR ''@'' \<in> set s), isoDate = (\<lambda>j. None),
      integerNumber = (\<lambda>j. case j of JNum n \<Rightarrow> Some n | _ \<Rightarrow> None),
      booleanValue = (\<lambda>j. case j of JBool b \<Rightarrow> Some b | _ \<Rightarrow> None)\<rparr>
     deleteSchema
     \<lparr>p_sender = Some (JStr ''evil@x.com''), p_subject = None, p_receivedFrom = None,
      p_receivedTo = None, p_maxPerMailbox = Some (JNum 50), p_simulate = Some (JBool False)\<rparr>"
  using deleteSchema_accepts_iff_sender
    [of "\<lparr>isEmail = (\<lambda>s. CHR ''@'' \<in> set s), isoDate = (\<lambda>j. None),
          integerNumber = (\<lambda>j. case j of JNum n \<Rightarrow> Some n | _ \<Rightarrow> None),
          booleanValue = (\<lambda>j. case j of JBool b \<Rightarrow> Some b | _ \<Rightarrow> None)\<rparr>"
        "\<lparr>p_sender = Some (JStr ''evil@x.com''), p_subject = None, p_receivedFrom = None,
          p_receivedTo = None, p_maxPerMailbox = Some (JNum 50),
          p_simulate = Some (JBool False)\<rparr>"]
  by (simp add: sender_present_def subject_valid_or_absent_def secondary_fields_ok_def
      deleteSchema_def keys_simulate_def fork_sender_required_def filterBaseSchema_def
      check_date_def check_maxPerMailbox_def check_simulate_def errors_of_def value_of_def)

section \<open>Properties of the cancel route\<close>





section \<open>Properties of the purge handlers\<close>

lemma onChildClose_registry:
  "activePurges (onChildClose env op code signal st) = (activePurges st)(op_requestId op := None)"
  by (simp add: onChildClose_def Let_def appendLogEntry_def split: reply.splits prod.splits)

lemma onChildClose_appendCalls:
  "appendCalls (onChildClose env op code signal st)
     = appendCalls st @ [assembleLogEntry env op (contexts st (op_context op)) code signal]"
  by (simp add: onChildClose_def Let_def appendLogEntry_def split: reply.splits prod.splits)

lemma onChildClose_logFile:
  "logFile (onChildClose env op code signal st)
     = (if storageWritable env
        then logFile st @
          [\<lparr>se_id = randomUUID env,
            se_timestamp = isoText (op_startedAt op),
            se_entry = assembleLogEntry env op (contexts st (op_context op)) code signal\<rparr>]
        else logFile st)"
  by (simp add: onChildClose_def Let_def appendLogEntry_def assembleLogEntry_def
      split: reply.splits prod.splits)

lemma onChildError_frame:
  "activePurges (onChildError op message st) = (activePurges st)(op_requestId op := None)
   \<and> logFile (onChildError op message st) = logFile st
   \<and> appendCalls (onChildError op message st) = appendCalls st"
  by (simp add: onChildError_def Let_def)

text \<open>
  C4, as amended. When the child process of a purge operation closes, the operation's
  entry is removed from the registry, exactly one log entry is assembled and handed to
  the log store once, with status cancelled, simulated, completed or failed; the log
  file gains exactly that entry when the store accepts the write, and stays as it was
  when the write fails. The handler of a spawn error removes the registry entry and
  itself hands nothing to the log store: an operation whose spawn failed gets its entry
  when the close event follows.
\<close>

theorem purge_terminal_transition:
  "activePurges (onChildClose env op code signal st) (op_requestId op) = None
   \<and> appendCalls (onChildClose env op code signal st)
       = appendCalls st @ [assembleLogEntry env op (contexts st (op_context op)) code signal]
   \<and> le_status (assembleLogEntry env op (contexts st (op_context op)) code signal)
       \<in> {''cancelled'', ''simulated'', ''completed'', ''failed''}
   \<and> (storageWritable env \<longrightarrow>
        map se_entry (logFile (onChildClose env op code signal st))
          = map se_entry (logFile st)
            @ [assembleLogEntry env op (contexts st (op_context op)) code signal])
   \<and> (\<not> storageWritable env \<longrightarrow>
        logFile (onChildClose env op code signal st) = logFile st)
   \<and> activePurges (onChildError op message st) (op_requestId op) = None
   \<and> logFile (onChildError op message st) = logFile st
   \<and> appendCalls (onChildError op message st) = appendCalls st"
proof -
  have "le_status (assembleLogEntry env op (contexts st (op_context op)) code signal)
       \<in> {''cancelled'', ''simulated'', ''completed'', ''failed''}"
    by (simp add: assembleLogEntry_def Let_def purgeStatus_def)
  then show ?thesis
    by (simp add: onChildClose_registry onChildClose_appendCalls onChildClose_logFile
        onChildError_frame)
qed

text \<open>
  The example operation, registered and then closed with exit code 0 while the log store
  accepts the write: the registry is empty again and the log file holds one entry, with
  status \<open>completed\<close>. And the same operation when the spawn fails and the close event
  follows with a negative code: after the error handler the registry is empty and the
  log file is unchanged, after the close handler the log file holds one entry, with
  status \<open>failed\<close>.
\<close>

theorem purge_terminal_transition_witness:
  "storageWritable (example_log_env True)
   \<and> activePurges (registerPurge example_op idle_server) ''op-1'' = Some 1
   \<and> activePurges
        (onChildClose (example_log_env True) example_op (Some 0) None
           (registerPurge example_op idle_server)) ''op-1'' = None
   \<and> map (le_status \<circ> se_entry)
        (logFile (onChildClose (example_log_env True) example_op (Some 0) None
           (registerPurge example_op idle_server))) = [''completed'']
   \<and> activePurges
        (onChildError example_op ''spawn powershell.exe ENOENT''
           (registerPurge example_op idle_server)) ''op-1'' = None
   \<and> logFile
        (onChildError example_op ''spawn powershell.exe ENOENT''
           (registerPurge example_op idle_server)) = []
   \<and> map (le_status \<circ> se_entry)
        (logFile (onChildClose (example_log_env True) example_op (Some (- 2)) None
           (onChildError example_op ''spawn powershell.exe ENOENT''
              (registerPurge example_op idle_server)))) = [''failed'']"
proof -
  let ?st = "registerPurge example_op idle_server"
  let ?er = "onChildError example_op ''spawn powershell.exe ENOENT'' ?st"
  let ?ctx = "\<lparr>pc_requestId = ''op-1'', pc_child = Some 7, pc_cancelled = False,
         pc_cancelReason = None, pc_wantsStream = False\<rparr>"
  have w: "storageWritable (example_log_env True)" by simp
  have r: "logFile ?st = []"
    by (simp add: registerPurge_def Let_def)
  have c: "contexts ?st 1 = ?ctx"
    by (simp add: registerPurge_def Let_def)
  have a: "activePurges ?st ''op-1'' = Some 1"
    by (simp add: registerPurge_def Let_def)
  have s: "le_status (assembleLogEntry (example_log_env True) example_op ?ctx (Some 0) None)
      = ''completed''"
    by (simp add: assembleLogEntry_def Let_def purgeStatus_def)
  note t1 = purge_terminal_transition
         [of "example_log_env True" example_op "Some 0" None ?st
             "''spawn powershell.exe ENOENT''"]
  from t1 have 1: "activePurges
        (onChildClose (example_log_env True) example_op (Some 0) None ?st) ''op-1'' = None"
    and 2: "map se_entry
        (logFile (onChildClose (example_log_env True) example_op (Some 0) None ?st))
        = [assembleLogEntry (example_log_env True) example_op (contexts ?st 1) (Some 0) None]"
    and 3: "activePurges ?er ''op-1'' = None"
    and 4: "logFile ?er = []"
    using w r by simp_all
  have c': "contexts ?er 1 = ?ctx\<lparr>pc_child := None\<rparr>"
    by (simp add: onChildError_def registerPurge_def Let_def)
  have s': "le_status (assembleLogEntry (example_log_env True) example_op
      (?ctx\<lparr>pc_child := None\<rparr>) (Some (- 2)) None) = ''failed''"
    by (simp add: assembleLogEntry_def Let_def purgeStatus_def)
  note t2 = purge_terminal_transition
         [of "example_log_env True" example_op "Some (- 2)" None ?er
             "''spawn powershell.exe ENOENT''"]
  from t2 have 5: "map se_entry
        (logFile (onChildClose (example_log_env True) example_op (Some (- 2)) None ?er))
        = [assembleLogEntry (example_log_env True) example_op (contexts ?er 1)
             (Some (- 2)) None]"
    using w 4 by simp
  have 6: "map (le_status \<circ> se_entry)
        (logFile (onChildClose (example_log_env True) example_op (Some 0) None ?st))
        = [''completed'']"
    using 2 c s by (simp del: map_map add: map_map[symmetric])
  have 7: "map (le_status \<circ> se_entry)
        (logFile (onChildClose (example_log_env True) example_op (Some (- 2)) None ?er))
        = [''failed'']"
    using 5 c' s' by (simp del: map_map add: map_map[symmetric])
  from w a 1 3 4 6 7 show ?thesis by (intro conjI)
qed

text \<open>
  C4 as the specification states it fails when the log store rejects the write: the
  example operation closes with exit code 0, its registry entry is removed and one entry
  is assembled and handed to the store, but nothing is persisted.
\<close>

theorem purge_terminal_without_entry:
  "activePurges (registerPurge example_op idle_server) ''op-1'' = Some 1
   \<and> activePurges
        (onChildClose (example_log_env False) example_op (Some 0) None
           (registerPurge example_op idle_server)) ''op-1'' = None
   \<and> length (appendCalls
        (onChildClose (example_log_env False) example_op (Some 0) None
           (registerPurge example_op idle_server))) = 1
   \<and> logFile
        (onChildClose (example_log_env False) example_op (Some 0) None
           (registerPurge example_op idle_server)) = []"
  by (simp add: onChildClose_registry onChildClose_logFile onChildClose_appendCalls
      registerPurge_def Let_def)

section \<open>Properties of the result aggregator\<close>

lemma mset_insertSorted: "mset (insertSorted cmp x ys) = add_mset x (mset ys)"
  by (induction ys) auto

lemma mset_js_sort: "mset (js_sort cmp xs) = mset xs"
  by (induction xs) (auto simp: js_sort_def mset_insertSorted)

lemma set_insertSorted: "set (insertSorted cmp x ys) = insert x (set ys)"
  by (induction ys) auto

lemma sorted_insertSorted:
  assumes "consistentCompare cmp" "sorted_wrt (\<lambda>a b. cmp a b \<le> 0) ys"
  shows "sorted_wrt (\<lambda>a b. cmp a b \<le> 0) (insertSorted cmp x ys)"
  using assms(2)
proof (induction ys)
  case Nil
  then show ?case by simp
next
  case (Cons y ys)
  have tot: "\<And>a b. cmp a b \<le> 0 \<or> cmp b a \<le> 0"
    and tr: "\<And>a b c. cmp a b \<le> 0 \<Longrightarrow> cmp b c \<le> 0 \<Longrightarrow> cmp a c \<le> 0"
    using assms(1) unfolding consistentCompare_def by blast+
  show ?case
  proof (cases "cmp x y \<le> 0")
    case True
    then have "\<forall>z\<in>set ys. cmp x z \<le> 0"
      using Cons.prems tr by auto
    with True Cons.prems show ?thesis by simp
  next
    case False
    then have "cmp y x \<le> 0" using tot by blast
    with False Cons show ?thesis
      by (auto simp: set_insertSorted)
  qed
qed

lemma sorted_js_sort:
  "consistentCompare cmp \<Longrightarrow> sorted_wrt (\<lambda>a b. cmp a b \<le> 0) (js_sort cmp xs)"
  by (induction xs) (auto simp: js_sort_def intro: sorted_insertSorted)

lemma filter_insertSorted:
  assumes "\<And>y. P y \<Longrightarrow> P x \<Longrightarrow> cmp x y \<le> 0"
  shows "filter P (insertSorted cmp x ys) = (if P x then x # filter P ys else filter P ys)"
  using assms by (induction ys) auto

lemma stable_js_sort:
  assumes "\<And>x y. P x \<Longrightarrow> P y \<Longrightarrow> cmp x y \<le> 0"
  shows "filter P (js_sort cmp xs) = filter P xs"
  using assms by (induction xs) (auto simp: js_sort_def filter_insertSorted)

lemma foldl_searchCollect:
  "foldl searchCollect (mr, fs) rs = (mr @ filter kept rs, fs @ filter failed rs)"
proof (induction rs arbitrary: mr fs)
  case Nil
  then show ?case by simp
next
  case (Cons r rs)
  then show ?case by (cases r) (simp_all add: kept_def failed_def)
qed

lemma foldl_deleteCollect:
  "foldl deleteCollect (mr, fs, td) rs
     = (mr @ filter kept rs, fs @ filter failed rs,
        foldl js_add td (map r_deleted (filter kept rs)))"
proof (induction rs arbitrary: mr fs td)
  case Nil
  then show ?case by simp
next
  case (Cons r rs)
  then show ?case by (cases r) (simp_all add: kept_def failed_def)
qed

lemma error_message_nonempty: "error_message e \<noteq> []"
  by (cases e) simp_all

lemma resultFor_kept: "resultFor a r \<Longrightarrow> kept r = isOutcome r"
  by (cases r) (simp_all add: kept_def truthy_opt_def truthy_str_def)

lemma resultFor_failed: "resultFor a r \<Longrightarrow> failed r = isFailure r"
  by (cases r) (simp_all add: failed_def truthy_opt_def truthy_str_def)

lemma those_map_Some:
  "those (map f xs) = Some ys \<Longrightarrow> map f xs = map Some ys"
proof (induction xs arbitrary: ys)
  case Nil
  then show ?case by simp
next
  case (Cons x xs)
  then show ?case by (auto split: option.splits)
qed

lemma awaitAll_results:
  assumes "awaitAll (map f ms) = Some (rs, cs)"
  shows "rs = map (\<lambda>m. resultOf (f m)) ms" "\<forall>m\<in>set ms. f m \<noteq> None"
    "cs = map (\<lambda>m. snd (the (f m))) ms"
proof -
  from assms obtain ys where ys: "those (map f ms) = Some ys" "rs = map fst ys" "cs = map snd ys"
    by (auto simp: awaitAll_def)
  from those_map_Some[OF ys(1)] have eq: "map f ms = map Some ys" .
  then have len: "length ms = length ys" by (metis length_map)
  have nth: "\<And>i. i < length ms \<Longrightarrow> f (ms ! i) = Some (ys ! i)"
    using eq len by (metis nth_map)
  show "rs = map (\<lambda>m. resultOf (f m)) ms"
    unfolding ys(2) using len nth
    by (intro nth_equalityI) (auto simp: resultOf_def split: prod.splits)
  show "cs = map (\<lambda>m. snd (the (f m))) ms"
    unfolding ys(3) using len nth
    by (intro nth_equalityI) auto
  show "\<forall>m\<in>set ms. f m \<noteq> None"
    using nth by (metis in_set_conv_nth option.distinct(1))
qed

section \<open>Properties of the folder scanner\<close>

lemma foldl_push_until:
  "foldl (\<lambda>items item. if int (length items) \<ge> limit then items else items @ [mk item]) items page
     = items @ take (nat (limit - int (length items))) (map mk page)"
proof (induction page arbitrary: items)
  case Nil
  then show ?case by simp
next
  case (Cons x xs)
  show ?case
  proof (cases "limit \<le> int (length items)")
    case True
    then show ?thesis using Cons.IH[of items] by simp
  next
    case False
    then have "nat (limit - int (length items)) = Suc (nat (limit - int (length items) - 1))"
      by simp
    then show ?thesis using False Cons.IH[of "items @ [mk x]"]
      by (simp add: algebra_simps)
  qed
qed

lemma appendResults_Some:
  "Items r = Some page \<Longrightarrow>
   appendResults mbx fn limit items (Some r)
     = items @ take (nat (limit - int (length items)))
         (map (\<lambda>item. \<lparr>f_item = item, f_metadata = buildTransform mbx fn item\<rparr>) page)"
  by (simp add: appendResults_def foldl_push_until)

lemma appendResults_grows:
  assumes "Items r = Some page" "page \<noteq> []" "int (length items) < limit"
  shows "length items < length (appendResults mbx fn limit items (Some r))"
proof -
  from assms(2) obtain x xs where "page = x # xs" by (cases page) auto
  moreover from assms(3) have "0 < nat (limit - int (length items))" by simp
  ultimately show ?thesis
    using appendResults_Some[OF assms(1), of mbx fn limit items]
    by (cases "nat (limit - int (length items))") auto
qed

lemma scanPages_sound:
  assumes "scanPages w pageSz mbx folder query limit results items calls = Some y"
  shows "(\<exists>extra. snd y = calls @ extra \<and> (\<forall>c\<in>set extra. \<not> isDeleteCall c))
   \<and> (\<forall>found. fst y = Inr found \<longrightarrow> length found \<le> nat limit)"
proof -
  let ?P = "\<lambda>(w::world) (pageSz::int) (mbx::string) (folder::folder_descriptor)
      (query::string) (limit::int) (results::find_results option) (items::found list)
      (calls::remote_call list) (y::(exchange_error + found list) \<times> remote_call list).
      (\<exists>extra. snd y = calls @ extra \<and> (\<forall>c\<in>set extra. \<not> isDeleteCall c))
      \<and> (\<forall>found. fst y = Inr found \<longrightarrow> length found \<le> nat limit)"
  have "?P w pageSz mbx folder query limit results items calls y"
  proof (rule scanPages.raw_induct[where P = ?P, OF _ assms], goal_cases)
    case (1 sp w pageSz mbx folder query limit results items calls y)
    show ?case
    proof (cases results)
      case None
      with 1(2) show ?thesis by auto
    next
      case (Some r)
      show ?thesis
      proof (cases "MoreAvailable r \<and> int (length items) < limit")
        case False
        with Some 1(2) show ?thesis by auto
      next
        case True
        let ?view = "\<lparr>iv_pageSize = min (limit - int (length items)) pageSz,
                       iv_offset = NextPageOffset r\<rparr>"
        show ?thesis
        proof (cases "FindItems w mbx (length calls) (fd_id folder) query ?view")
          case Rejected
          with Some True 1(2) show ?thesis by auto
        next
          case (Resolved results')
          with Some True 1(2)
          have "sp w pageSz mbx folder query limit results'
                  (appendResults mbx (fd_name folder) limit items results')
                  (calls @ [FindItemsCall mbx (fd_id folder) query ?view]) = Some y"
            by simp
          from 1(1)[OF this] show ?thesis by auto
        qed
      qed
    qed
  qed
  then show ?thesis .
qed

lemma scanPages_terminates:
  assumes "productive w"
  shows "\<exists>y. scanPages w pageSz mbx folder query limit results items calls = Some y"
proof (induction "nat (limit - int (length items))" arbitrary: results items calls
        rule: less_induct)
  case less
  show ?case
  proof (cases results)
    case None
    then show ?thesis by (subst scanPages.simps) simp
  next
    case (Some r)
    show ?thesis
    proof (cases "MoreAvailable r \<and> int (length items) < limit")
      case False
      with Some show ?thesis by (subst scanPages.simps) auto
    next
      case True
      let ?view = "\<lparr>iv_pageSize = min (limit - int (length items)) pageSz,
                     iv_offset = NextPageOffset r\<rparr>"
      show ?thesis
      proof (cases "FindItems w mbx (length calls) (fd_id folder) query ?view")
        case Rejected
        with Some True show ?thesis by (subst scanPages.simps) simp
      next
        case (Resolved results')
        let ?items' = "appendResults mbx (fd_name folder) limit items results'"
        let ?calls' = "calls @ [FindItemsCall mbx (fd_id folder) query ?view]"
        have step: "scanPages w pageSz mbx folder query limit results items calls
              = scanPages w pageSz mbx folder query limit results' ?items' ?calls'"
          using Some True Resolved by (subst scanPages.simps) simp
        show ?thesis
        proof (cases results')
          case None
          then show ?thesis unfolding step by (subst scanPages.simps) simp
        next
          case (Some r')
          show ?thesis
          proof (cases "MoreAvailable r'")
            case False
            with Some show ?thesis unfolding step by (subst scanPages.simps) simp
          next
            case more: True
            with assms Resolved Some obtain page where page: "Items r' = Some page" "page \<noteq> []"
              unfolding productive_def by blast
            from True have "int (length items) < limit" by simp
            from appendResults_grows[OF page this, of mbx "fd_name folder"] Some
            have "length items < length ?items'" by simp
            with True have "nat (limit - int (length ?items')) < nat (limit - int (length items))"
              by linarith
            from less[OF this] show ?thesis unfolding step .
          qed
        qed
      qed
    qed
  qed
qed

lemma findItemsInFolder_sound:
  "findItemsInFolder w pageSz folder query limit mbx calls = Some y \<Longrightarrow>
   (\<exists>extra. snd y = calls @ extra \<and> (\<forall>c\<in>set extra. \<not> isDeleteCall c))
   \<and> (\<forall>found. fst y = Inr found \<longrightarrow> length found \<le> nat limit)"
  unfolding findItemsInFolder_def Let_def
  by (auto split: if_splits reply.splits dest!: scanPages_sound)

lemma findItemsInFolder_terminates:
  assumes "productive w"
  shows "\<exists>y. findItemsInFolder w pageSz folder query limit mbx calls = Some y"
proof (cases "limit \<le> 0")
  case True
  then show ?thesis by (simp add: findItemsInFolder_def)
next
  case False
  let ?view = "\<lparr>iv_pageSize = min limit pageSz, iv_offset = 0\<rparr>"
  show ?thesis
  proof (cases "FindItems w mbx (length calls) (fd_id folder) query ?view")
    case Rejected
    with False show ?thesis by (simp add: findItemsInFolder_def)
  next
    case (Resolved results)
    from scanPages_terminates[OF assms]
    obtain y where "scanPages w pageSz mbx folder query limit results
        (appendResults mbx (fd_name folder) limit [] results)
        (calls @ [FindItemsCall mbx (fd_id folder) query ?view]) = Some y"
      by blast
    with False Resolved show ?thesis by (simp add: findItemsInFolder_def)
  qed
qed

section \<open>Properties of the per-mailbox executor\<close>

lemma deleteLoop_sound:
  "deleteLoop w pageSz mbx query limit folders matches ids calls = Some (x, calls') \<Longrightarrow>
   (\<exists>extra. calls' = calls @ extra \<and> (\<forall>c\<in>set extra. \<not> isDeleteCall c))
   \<and> (\<forall>matches' ids'. x = Inr (matches', ids') \<longrightarrow>
         length matches' + length ids = length ids' + length matches)"
proof (induction w pageSz mbx query limit folders matches ids calls
        rule: deleteLoop.induct)
  case (1 w pageSz mbx query limit matches deletableIds calls)
  then show ?case by auto
next
  case (2 w pageSz mbx query limit folder rest matches deletableIds calls)
  from "2.prems" obtain r c where
    f: "findItemsInFolder w pageSz folder query (limit - int (length matches)) mbx calls
          = Some (r, c)"
    by (auto split: option.splits)
  from findItemsInFolder_sound[OF f] obtain e1 where
    e1: "c = calls @ e1" "\<forall>c\<in>set e1. \<not> isDeleteCall c" by auto
  show ?case
  proof (cases r)
    case (Inl e)
    with "2.prems" f e1 show ?thesis by auto
  next
    case (Inr found)
    let ?m = "matches @ map f_metadata found"
    let ?i = "deletableIds @ map (\<lambda>entry. Id (f_item entry)) found"
    show ?thesis
    proof (cases "limit \<le> int (length ?m)")
      case True
      with "2.prems" f Inr e1 show ?thesis by (auto simp: Let_def)
    next
      case False
      with "2.prems" f Inr
      have rec: "deleteLoop w pageSz mbx query limit rest ?m ?i c = Some (x, calls')"
        by (simp add: Let_def)
      from "2.IH"[OF f refl Inr refl refl False rec]
      have "(\<exists>extra. calls' = c @ extra \<and> (\<forall>c\<in>set extra. \<not> isDeleteCall c))
        \<and> (\<forall>matches' ids'. x = Inr (matches', ids') \<longrightarrow>
              length matches' + length ?i = length ids' + length ?m)"
        by simp
      with e1 show ?thesis by auto
    qed
  qed
qed

lemma deleteForMailbox_simulate:
  assumes "deleteForMailbox w cfg mbx folders query limit deleteMode True = Some (x, calls)"
  shows "(\<forall>c\<in>set calls. \<not> isDeleteCall c) \<and> (\<forall>r. x = Inr r \<longrightarrow> dr_deleted r = 0)"
proof (cases "createService w cfg ''DeleteForMailbox'' (Some (smtpAddress mbx))")
  case (Some e)
  with assms show ?thesis by (auto simp: deleteForMailbox_def)
next
  case None
  with assms obtain y c where
    l: "deleteLoop w (pageSize cfg) (smtpAddress mbx) query limit folders [] [] [] = Some (y, c)"
    by (auto simp: deleteForMailbox_def split: option.splits)
  from deleteLoop_sound[OF l] have "\<forall>c\<in>set c. \<not> isDeleteCall c" by auto
  with assms None l show ?thesis
    by (auto simp: deleteForMailbox_def split: sum.splits prod.splits)
qed

lemma deleteForMailbox_scan_same:
  assumes "deleteForMailbox w cfg mbx folders query limit deleteMode False = Some (x, calls)"
  shows "\<exists>x'. deleteForMailbox w cfg mbx folders query limit deleteMode True
            = Some (x', filter (\<lambda>c. \<not> isDeleteCall c) calls)
          \<and> (\<forall>r. x = Inr r \<longrightarrow> (\<exists>r'. x' = Inr r' \<and> dr_matches r' = dr_matches r))"
proof (cases "createService w cfg ''DeleteForMailbox'' (Some (smtpAddress mbx))")
  case (Some e)
  with assms show ?thesis by (auto simp: deleteForMailbox_def)
next
  case None
  with assms obtain y c where
    l: "deleteLoop w (pageSize cfg) (smtpAddress mbx) query limit folders [] [] [] = Some (y, c)"
    by (auto simp: deleteForMailbox_def split: option.splits)
  from deleteLoop_sound[OF l] have nd: "\<forall>c\<in>set c. \<not> isDeleteCall c" by auto
  then have fc: "filter (\<lambda>c. \<not> isDeleteCall c) c = c" by (simp add: filter_id_conv)
  with assms None l show ?thesis
    by (auto simp: deleteForMailbox_def split: sum.splits prod.splits if_splits reply.splits)
qed

lemma deleteForMailbox_real:
  assumes "deleteForMailbox w cfg mbx folders query limit deleteMode False = Some (Inr r, calls)"
    and "dr_matches r \<noteq> []"
  shows "\<exists>ids finds. calls = finds @ [DeleteItemsCall (smtpAddress mbx) ids deleteMode]
           \<and> (\<forall>c\<in>set finds. \<not> isDeleteCall c)
           \<and> dr_deleted r = length ids \<and> length ids = length (dr_matches r)"
proof (cases "createService w cfg ''DeleteForMailbox'' (Some (smtpAddress mbx))")
  case (Some e)
  with assms show ?thesis by (auto simp: deleteForMailbox_def)
next
  case None
  with assms obtain y c where
    l: "deleteLoop w (pageSize cfg) (smtpAddress mbx) query limit folders [] [] [] = Some (y, c)"
    by (auto simp: deleteForMailbox_def split: option.splits)
  from deleteLoop_sound[OF l] have nd: "\<forall>c\<in>set c. \<not> isDeleteCall c"
    and len: "\<forall>matches' ids'. y = Inr (matches', ids') \<longrightarrow> length matches' = length ids'"
    by auto
  with assms None l show ?thesis
    by (auto simp: deleteForMailbox_def split: sum.splits prod.splits if_splits reply.splits)
qed

lemma searchTask_resultFor:
  "searchTask w cfg folders query limit mbx = Some (r, calls) \<Longrightarrow> resultFor (smtpAddress mbx) r"
  by (auto simp: searchTask_def error_message_nonempty Suc_le_eq
      split: option.splits sum.splits prod.splits if_splits)

lemma deleteTask_resultFor:
  "deleteTask w cfg folders query limit deleteMode simulate mbx = Some (r, calls)
     \<Longrightarrow> resultFor (smtpAddress mbx) r"
  by (auto simp: deleteTask_def error_message_nonempty Suc_le_eq
      split: option.splits sum.splits prod.splits if_splits)

lemma deleteTask_simulate:
  assumes "deleteTask w cfg folders query limit deleteMode True mbx = Some (r, calls)"
  shows "(\<forall>c\<in>set calls. \<not> isDeleteCall c) \<and> (isOutcome r \<longrightarrow> r_deleted r = Some 0)"
  using assms deleteForMailbox_simulate[of w cfg mbx folders query limit deleteMode]
  by (auto simp: deleteTask_def split: option.splits sum.splits prod.splits if_splits)

lemma deleteTask_real:
  assumes "deleteTask w cfg folders query limit deleteMode False mbx = Some (r, calls)"
    and "isOutcome r"
  shows "\<exists>ids finds. calls = finds @ [DeleteItemsCall (r_mailbox r) ids deleteMode]
           \<and> (\<forall>c\<in>set finds. \<not> isDeleteCall c)
           \<and> r_deleted r = Some (length ids) \<and> r_totalMatches r = Some (length ids)"
  using assms deleteForMailbox_real[of w cfg mbx folders query limit deleteMode]
  by (auto simp: deleteTask_def split: option.splits sum.splits prod.splits if_splits)

lemma deleteTask_scan_same:
  assumes "deleteTask w cfg folders query limit deleteMode False mbx = Some (r, calls)"
  shows "\<exists>r'. deleteTask w cfg folders query limit deleteMode True mbx
            = Some (r', filter (\<lambda>c. \<not> isDeleteCall c) calls)"
proof -
  from assms obtain x where
    x: "deleteForMailbox w cfg mbx folders query limit deleteMode False = Some (x, calls)"
    by (auto simp: deleteTask_def split: option.splits sum.splits if_splits)
  from deleteForMailbox_scan_same[OF x] show ?thesis
    by (auto simp: deleteTask_def split: sum.splits if_splits)
qed

section \<open>What a request returns\<close>

lemma deleteMessages_char:
  assumes "deleteMessages w lib cfg filters = Some (Inr (agg, calls))"
  shows "\<exists>ms fs. getSearchableMailboxes w cfg = Inr ms
      \<and> resolveFolders lib cfg (df_folders filters) = Inr fs
      \<and> (\<forall>m\<in>set ms. deleteTaskFor w lib cfg filters fs m \<noteq> None)
      \<and> calls = map (\<lambda>m. snd (the (deleteTaskFor w lib cfg filters fs m))) ms
      \<and> ag_results agg = js_sort (byMailbox w)
            (filter kept (map (\<lambda>m. resultOf (deleteTaskFor w lib cfg filters fs m)) ms))
      \<and> ag_failures agg
          = filter failed (map (\<lambda>m. resultOf (deleteTaskFor w lib cfg filters fs m)) ms)
      \<and> ds_totalDeleted (ag_summary agg)
          = foldl js_add (Some 0) (map r_deleted
              (filter kept (map (\<lambda>m. resultOf (deleteTaskFor w lib cfg filters fs m)) ms)))
      \<and> ds_totalMailboxesScanned (ag_summary agg) = length ms
      \<and> ds_mode (ag_summary agg)
          = (let modeKey = toLowerCase (case df_deleteMode filters of
                                          None \<Rightarrow> ''softDelete'' | Some m \<Rightarrow> m)
             in if truthy_property (deleteModeCode lib) (get_property DELETE_MODE_MAP modeKey)
                then modeKey else ''softdelete'')"
proof -
  obtain ms where M: "getSearchableMailboxes w cfg = Inr ms"
    using assms by (cases "getSearchableMailboxes w cfg") (auto simp: deleteMessages_def Let_def)
  obtain fs where F: "resolveFolders lib cfg (df_folders filters) = Inr fs"
    using assms M by (cases "resolveFolders lib cfg (df_folders filters)")
      (auto simp: deleteMessages_def Let_def)
  let ?f = "deleteTaskFor w lib cfg filters fs"
  show ?thesis
  proof (cases "ms = []")
    case True
    with assms M F show ?thesis
      by (auto simp: deleteMessages_def Let_def js_sort_def)
  next
    case False
    from assms M F False obtain rs where
      A: "awaitAll (map ?f ms) = Some (rs, calls)"
      and R: "ag_results agg = js_sort (byMailbox w) (filter kept rs)"
        "ag_failures agg = filter failed rs"
        "ds_totalDeleted (ag_summary agg) = foldl js_add (Some 0) (map r_deleted (filter kept rs))"
        "ds_totalMailboxesScanned (ag_summary agg) = length ms"
        "ds_mode (ag_summary agg)
          = (let modeKey = toLowerCase (case df_deleteMode filters of
                                          None \<Rightarrow> ''softDelete'' | Some m \<Rightarrow> m)
             in if truthy_property (deleteModeCode lib) (get_property DELETE_MODE_MAP modeKey)
                then modeKey else ''softdelete'')"
      unfolding deleteMessages_def deleteTaskFor_def Let_def
      by (auto simp: foldl_deleteCollect split: option.splits)
    from awaitAll_results[OF A] R M F show ?thesis by auto
  qed
qed

lemma searchMessages_char:
  assumes "searchMessages w lib cfg filters = Some (Inr (agg, calls))"
  shows "\<exists>ms fs. getSearchableMailboxes w cfg = Inr ms
      \<and> resolveFolders lib cfg (sf_folders filters) = Inr fs
      \<and> (\<forall>m\<in>set ms. searchTaskFor w cfg filters fs m \<noteq> None)
      \<and> ag_results agg = js_sort (byMailbox w)
            (filter kept (map (\<lambda>m. resultOf (searchTaskFor w cfg filters fs m)) ms))
      \<and> ag_failures agg
          = filter failed (map (\<lambda>m. resultOf (searchTaskFor w cfg filters fs m)) ms)
      \<and> ss_totalMailboxesScanned (ag_summary agg) = length ms"
proof -
  obtain ms where M: "getSearchableMailboxes w cfg = Inr ms"
    using assms by (cases "getSearchableMailboxes w cfg") (auto simp: searchMessages_def Let_def)
  obtain fs where F: "resolveFolders lib cfg (sf_folders filters) = Inr fs"
    using assms M by (cases "resolveFolders lib cfg (sf_folders filters)")
      (auto simp: searchMessages_def Let_def)
  let ?f = "searchTaskFor w cfg filters fs"
  show ?thesis
  proof (cases "ms = []")
    case True
    with assms M F show ?thesis
      by (auto simp: searchMessages_def Let_def js_sort_def)
  next
    case False
    from assms M F False obtain rs where
      A: "awaitAll (map ?f ms) = Some (rs, calls)"
      and R: "ag_results agg = js_sort (byMailbox w) (filter kept rs)"
        "ag_failures agg = filter failed rs"
        "ss_totalMailboxesScanned (ag_summary agg) = length ms"
      unfolding searchMessages_def searchTaskFor_def Let_def
      by (auto simp: foldl_searchCollect split: option.splits)
    from awaitAll_results[OF A] R M F show ?thesis by auto
  qed
qed

section \<open>Properties of delete requests\<close>

lemma foldl_js_add_Some:
  "\<forall>x\<in>set xs. g x \<noteq> None \<Longrightarrow>
   foldl js_add (Some a) (map g xs) = Some (a + sum_list (map (\<lambda>x. case g x of None \<Rightarrow> 0 | Some n \<Rightarrow> n) xs))"
  by (induction xs arbitrary: a) (auto simp: js_add_def)

lemma sum_list_js_sort:
  "sum_list (map f (js_sort cmp xs)) = sum_list (map (f::'a \<Rightarrow> nat) xs)"
proof -
  have "sum_list (map f (js_sort cmp xs)) = sum_mset (image_mset f (mset (js_sort cmp xs)))"
    by (metis mset_map sum_mset_sum_list)
  also have "\<dots> = sum_mset (image_mset f (mset xs))" by (simp add: mset_js_sort)
  also have "\<dots> = sum_list (map f xs)" by (metis mset_map sum_mset_sum_list)
  finally show ?thesis .
qed

lemma set_js_sort: "set (js_sort cmp xs) = set xs"
  by (metis mset_js_sort set_mset_mset)

lemma deleteTaskFor_simulate:
  assumes "df_simulate filters \<noteq> Some False"
    and "deleteTaskFor w lib cfg filters fs m = Some (r, calls)"
  shows "(\<forall>c\<in>set calls. \<not> isDeleteCall c) \<and> (isOutcome r \<longrightarrow> r_deleted r = Some 0)"
proof -
  from assms(1) have "(case df_simulate filters of None \<Rightarrow> True | Some b \<Rightarrow> b) = True"
    by (cases "df_simulate filters") auto
  with assms(2) show ?thesis
    unfolding deleteTaskFor_def Let_def by (auto dest: deleteTask_simulate)
qed

lemma deleteTaskFor_real:
  assumes "df_simulate filters = Some False"
    and "deleteTaskFor w lib cfg filters fs m = Some (r, calls)" and "isOutcome r"
  shows "\<exists>ids finds deleteMode. calls = finds @ [DeleteItemsCall (r_mailbox r) ids deleteMode]
           \<and> (\<forall>c\<in>set finds. \<not> isDeleteCall c)
           \<and> r_deleted r = Some (length ids) \<and> r_totalMatches r = Some (length ids)"
  using assms unfolding deleteTaskFor_def Let_def
  by (auto dest!: deleteTask_real)

lemma deleteTaskFor_resultFor:
  "deleteTaskFor w lib cfg filters fs m = Some (r, calls) \<Longrightarrow> resultFor (smtpAddress m) r"
  unfolding deleteTaskFor_def Let_def by (rule deleteTask_resultFor)

lemma searchTaskFor_resultFor:
  "searchTaskFor w cfg filters fs m = Some (r, calls) \<Longrightarrow> resultFor (smtpAddress m) r"
  unfolding searchTaskFor_def by (rule searchTask_resultFor)

lemma deleteTaskFor_scan_same:
  assumes "df_simulate filters \<noteq> Some False"
    and "deleteTaskFor w lib cfg (filters\<lparr>df_simulate := Some False\<rparr>) fs m = Some (r, calls)"
  shows "\<exists>r'. deleteTaskFor w lib cfg filters fs m
            = Some (r', filter (\<lambda>c. \<not> isDeleteCall c) calls)"
proof -
  from assms(1) have "(case df_simulate filters of None \<Rightarrow> True | Some b \<Rightarrow> b) = True"
    by (cases "df_simulate filters") auto
  with assms(2) show ?thesis
    unfolding deleteTaskFor_def Let_def by (auto dest: deleteTask_scan_same)
qed

text \<open>
  C1. When a delete request is a dry run (\<open>simulate\<close> is true, which it also is when
  the request leaves it out) and returns an aggregate, no mailbox task has issued a bulk
  delete call, \<open>summary.totalDeleted\<close> is 0 and every result reports 0 deleted. The
  scanning is the same as that of the real run: the calls of the dry run are the calls
  of the real run of the same request with the bulk delete calls left out.
\<close>

theorem simulate_issues_no_delete:
  assumes "deleteMessages w lib cfg filters = Some (Inr (agg, calls))"
    and "df_simulate filters \<noteq> Some False"
  shows "(\<forall>cs\<in>set calls. \<forall>c\<in>set cs. \<not> isDeleteCall c)
     \<and> ds_totalDeleted (ag_summary agg) = Some 0
     \<and> (\<forall>r\<in>set (ag_results agg). r_deleted r = Some 0)
     \<and> (\<forall>agg' calls'.
          deleteMessages w lib cfg (filters\<lparr>df_simulate := Some False\<rparr>)
            = Some (Inr (agg', calls'))
          \<longrightarrow> calls = map (filter (\<lambda>c. \<not> isDeleteCall c)) calls')"
proof -
  from deleteMessages_char[OF assms(1)] obtain ms fs where
    M: "getSearchableMailboxes w cfg = Inr ms"
    and F: "resolveFolders lib cfg (df_folders filters) = Inr fs"
    and T: "\<forall>m\<in>set ms. deleteTaskFor w lib cfg filters fs m \<noteq> None"
    and C: "calls = map (\<lambda>m. snd (the (deleteTaskFor w lib cfg filters fs m))) ms"
    and R: "ag_results agg = js_sort (byMailbox w)
            (filter kept (map (\<lambda>m. resultOf (deleteTaskFor w lib cfg filters fs m)) ms))"
    and D: "ds_totalDeleted (ag_summary agg)
          = foldl js_add (Some 0) (map r_deleted
              (filter kept (map (\<lambda>m. resultOf (deleteTaskFor w lib cfg filters fs m)) ms)))"
    by blast
  let ?f = "deleteTaskFor w lib cfg filters fs"
  let ?rs = "map (\<lambda>m. resultOf (?f m)) ms"
  have task: "\<And>m. m \<in> set ms \<Longrightarrow>
      (\<forall>c\<in>set (snd (the (?f m))). \<not> isDeleteCall c)
      \<and> resultFor (smtpAddress m) (resultOf (?f m))
      \<and> (isOutcome (resultOf (?f m)) \<longrightarrow> r_deleted (resultOf (?f m)) = Some 0)"
  proof -
    fix m assume "m \<in> set ms"
    with T obtain r c where rc: "?f m = Some (r, c)" by fastforce
    from deleteTaskFor_simulate[OF assms(2) rc] deleteTaskFor_resultFor[OF rc] rc
    show "(\<forall>c\<in>set (snd (the (?f m))). \<not> isDeleteCall c)
      \<and> resultFor (smtpAddress m) (resultOf (?f m))
      \<and> (isOutcome (resultOf (?f m)) \<longrightarrow> r_deleted (resultOf (?f m)) = Some 0)"
      by (simp add: resultOf_def)
  qed
  have zero: "\<forall>r\<in>set (filter kept ?rs). r_deleted r = Some 0"
  proof
    fix r assume "r \<in> set (filter kept ?rs)"
    then obtain m where m: "m \<in> set ms" "r = resultOf (?f m)" "kept r" by auto
    from task[OF m(1)] m(2,3) resultFor_kept[of "smtpAddress m" r]
    show "r_deleted r = Some 0" by simp
  qed
  have 1: "\<forall>cs\<in>set calls. \<forall>c\<in>set cs. \<not> isDeleteCall c"
    unfolding C using task by auto
  have 2: "ds_totalDeleted (ag_summary agg) = Some 0"
    unfolding D using zero foldl_js_add_Some[of "filter kept ?rs" r_deleted 0]
    by (simp add: sum_list_eq_0_iff)
  have 3: "\<forall>r\<in>set (ag_results agg). r_deleted r = Some 0"
    unfolding R set_js_sort using zero by blast
  have 4: "\<forall>agg' calls'.
          deleteMessages w lib cfg (filters\<lparr>df_simulate := Some False\<rparr>)
            = Some (Inr (agg', calls'))
          \<longrightarrow> calls = map (filter (\<lambda>c. \<not> isDeleteCall c)) calls'"
  proof (intro allI impI)
    fix agg' calls'
    assume real: "deleteMessages w lib cfg (filters\<lparr>df_simulate := Some False\<rparr>)
            = Some (Inr (agg', calls'))"
    let ?g = "deleteTaskFor w lib cfg (filters\<lparr>df_simulate := Some False\<rparr>) fs"
    from deleteMessages_char[OF real] M F
    have T': "\<forall>m\<in>set ms. ?g m \<noteq> None"
      and C': "calls' = map (\<lambda>m. snd (the (?g m))) ms"
      by auto
    have "\<And>m. m \<in> set ms \<Longrightarrow>
        snd (the (?f m)) = filter (\<lambda>c. \<not> isDeleteCall c) (snd (the (?g m)))"
    proof -
      fix m assume "m \<in> set ms"
      with T' obtain r c where rc: "?g m = Some (r, c)" by fastforce
      from deleteTaskFor_scan_same[OF assms(2) rc] rc
      show "snd (the (?f m)) = filter (\<lambda>c. \<not> isDeleteCall c) (snd (the (?g m)))" by auto
    qed
    then show "calls = map (filter (\<lambda>c. \<not> isDeleteCall c)) calls'"
      unfolding C C' by simp
  qed
  from 1 2 3 4 show ?thesis by blast
qed

text \<open>
  C2. When a delete request with \<open>simulate = false\<close> returns an aggregate,
  \<open>summary.totalDeleted\<close> is the sum of the \<open>deleted\<close> counts of the results, and for
  every result the mailbox task ended with one bulk delete call for that mailbox whose
  item identifiers are as many as \<open>deleted\<close> says, and as many as the matches.
\<close>

theorem totalDeleted_sums_deleted:
  assumes "deleteMessages w lib cfg filters = Some (Inr (agg, calls))"
    and "df_simulate filters = Some False"
  shows "ds_totalDeleted (ag_summary agg) = Some (sum_list (map deletedCount (ag_results agg)))
     \<and> (\<forall>r\<in>set (ag_results agg).
          \<exists>ids finds deleteMode.
            finds @ [DeleteItemsCall (r_mailbox r) ids deleteMode] \<in> set calls
            \<and> (\<forall>c\<in>set finds. \<not> isDeleteCall c)
            \<and> r_deleted r = Some (length ids)
            \<and> r_totalMatches r = Some (length ids))"
proof -
  from deleteMessages_char[OF assms(1)] obtain ms fs where
    T: "\<forall>m\<in>set ms. deleteTaskFor w lib cfg filters fs m \<noteq> None"
    and C: "calls = map (\<lambda>m. snd (the (deleteTaskFor w lib cfg filters fs m))) ms"
    and R: "ag_results agg = js_sort (byMailbox w)
            (filter kept (map (\<lambda>m. resultOf (deleteTaskFor w lib cfg filters fs m)) ms))"
    and D: "ds_totalDeleted (ag_summary agg)
          = foldl js_add (Some 0) (map r_deleted
              (filter kept (map (\<lambda>m. resultOf (deleteTaskFor w lib cfg filters fs m)) ms)))"
    by blast
  let ?f = "deleteTaskFor w lib cfg filters fs"
  let ?rs = "map (\<lambda>m. resultOf (?f m)) ms"
  have each: "\<forall>r\<in>set (filter kept ?rs).
          \<exists>ids finds deleteMode.
            finds @ [DeleteItemsCall (r_mailbox r) ids deleteMode] \<in> set calls
            \<and> (\<forall>c\<in>set finds. \<not> isDeleteCall c)
            \<and> r_deleted r = Some (length ids)
            \<and> r_totalMatches r = Some (length ids)"
  proof
    fix r assume "r \<in> set (filter kept ?rs)"
    then obtain m where m: "m \<in> set ms" "r = resultOf (?f m)" "kept r" by auto
    with T obtain r' c where rc: "?f m = Some (r', c)" by fastforce
    with m have r': "r' = r" by (simp add: resultOf_def)
    from deleteTaskFor_resultFor[OF rc] m r' have "isOutcome r" by (simp add: resultFor_kept)
    from deleteTaskFor_real[OF assms(2) rc[unfolded r'] this]
    obtain ids finds deleteMode where
      x: "c = finds @ [DeleteItemsCall (r_mailbox r) ids deleteMode]"
        "\<forall>c\<in>set finds. \<not> isDeleteCall c"
        "r_deleted r = Some (length ids)" "r_totalMatches r = Some (length ids)"
      by blast
    from m(1) rc have "c \<in> set calls" unfolding C by force
    with x show "\<exists>ids finds deleteMode.
            finds @ [DeleteItemsCall (r_mailbox r) ids deleteMode] \<in> set calls
            \<and> (\<forall>c\<in>set finds. \<not> isDeleteCall c)
            \<and> r_deleted r = Some (length ids)
            \<and> r_totalMatches r = Some (length ids)" by blast
  qed
  then have some: "\<forall>r\<in>set (filter kept ?rs). r_deleted r \<noteq> None" by fastforce
  have "ds_totalDeleted (ag_summary agg) = Some (sum_list (map deletedCount (filter kept ?rs)))"
    unfolding D using foldl_js_add_Some[OF some, of 0]
    by (simp add: deletedCount_def[abs_def])
  also have "\<dots> = Some (sum_list (map deletedCount (ag_results agg)))"
    unfolding R by (simp add: sum_list_js_sort)
  finally have 1: "ds_totalDeleted (ag_summary agg)
      = Some (sum_list (map deletedCount (ag_results agg)))" .
  from each have 2: "\<forall>r\<in>set (ag_results agg).
          \<exists>ids finds deleteMode.
            finds @ [DeleteItemsCall (r_mailbox r) ids deleteMode] \<in> set calls
            \<and> (\<forall>c\<in>set finds. \<not> isDeleteCall c)
            \<and> r_deleted r = Some (length ids)
            \<and> r_totalMatches r = Some (length ids)"
    unfolding R set_js_sort .
  from 1 2 show ?thesis by blast
qed

section \<open>Properties of the aggregation of a request\<close>

lemma partition_mset:
  "\<forall>m\<in>set ms. resultFor (smtpAddress m) (g m) \<Longrightarrow>
   mset (map smtpAddress ms)
     = mset (map r_mailbox (filter isOutcome (map g ms)))
       + mset (map r_mailbox (filter isFailure (map g ms)))
       + mset (map smtpAddress (filter (\<lambda>m. g m = TaskNull) ms))"
proof (induction ms)
  case Nil
  then show ?case by simp
next
  case (Cons m ms)
  then show ?case by (cases "g m") auto
qed

lemma partitioned_aggregate:
  assumes T: "\<forall>m\<in>set ms. \<exists>r c. f m = Some (r, c) \<and> resultFor (smtpAddress m) r"
    and R: "results = js_sort cmp (filter kept (map (\<lambda>m. resultOf (f m)) ms))"
    and F: "failures = filter failed (map (\<lambda>m. resultOf (f m)) ms)"
  shows "partitioned ms (\<lambda>m. resultOf (f m)) results failures"
proof -
  let ?g = "\<lambda>m. resultOf (f m)"
  have rf: "\<forall>m\<in>set ms. resultFor (smtpAddress m) (?g m)"
    using T by (fastforce simp: resultOf_def)
  have k: "filter kept (map ?g ms) = filter isOutcome (map ?g ms)"
    using rf by (intro filter_cong refl) (auto simp: resultFor_kept)
  have fl: "filter failed (map ?g ms) = filter isFailure (map ?g ms)"
    using rf by (intro filter_cong refl) (auto simp: resultFor_failed)
  have m1: "mset results = mset (filter isOutcome (map ?g ms))"
    unfolding R k by (simp add: mset_js_sort)
  then have m2: "mset (map r_mailbox results) = mset (map r_mailbox (filter isOutcome (map ?g ms)))"
    by (metis mset_map)
  show ?thesis
    unfolding partitioned_def
    using rf m1 m2 F fl partition_mset[OF rf]
    by (simp add: list_all_iff)
qed

lemma partitioned_disjoint:
  assumes "partitioned ms g results failures" "distinct (map smtpAddress ms)"
  shows "set (map r_mailbox results) \<inter> set (map r_mailbox failures) = {}"
proof (rule ccontr)
  assume "set (map r_mailbox results) \<inter> set (map r_mailbox failures) \<noteq> {}"
  then obtain k where k: "k \<in> set (map r_mailbox results)" "k \<in> set (map r_mailbox failures)"
    by blast
  then have "1 \<le> count (mset (map r_mailbox results)) k"
    "1 \<le> count (mset (map r_mailbox failures)) k"
    by (metis count_greater_eq_one_iff set_mset_mset)+
  moreover from assms(1) have "count (mset (map smtpAddress ms)) k
      = count (mset (map r_mailbox results)) k + count (mset (map r_mailbox failures)) k
        + count (mset (map smtpAddress (filter (\<lambda>m. g m = TaskNull) ms))) k"
    unfolding partitioned_def by simp
  ultimately have "2 \<le> count (mset (map smtpAddress ms)) k" by linarith
  moreover from assms(2) have "count (mset (map smtpAddress ms)) k \<le> 1"
    by (metis distinct_count_atmost_1 le_numeral_extra(4) zero_le_one)
  ultimately show False by linarith
qed

lemma partitioned_members:
  assumes "partitioned ms g results failures"
  shows "(\<forall>r\<in>set results. isOutcome r) \<and> (\<forall>r\<in>set failures. isFailure r)
     \<and> set results \<inter> set failures = {}"
proof -
  from assms have "set results = set (filter isOutcome (map g ms))"
    unfolding partitioned_def by (metis set_mset_mset)
  moreover from assms have "failures = filter isFailure (map g ms)"
    unfolding partitioned_def by simp
  moreover have "isOutcome r \<Longrightarrow> isFailure r \<Longrightarrow> False" for r
    by (cases r) auto
  ultimately show ?thesis by auto
qed

text \<open>
  C3. For a search request and for a delete request that returns an aggregate, the
  aggregation partitions the resolved mailboxes by the result of each mailbox's task:
  the results are exactly the outcomes (at least one match, no error), the failures are
  exactly the failures (an error message), and a mailbox whose task returned \<open>null\<close>
  (no match, no error) is in neither. Counted with multiplicity, the addresses of the
  resolved mailboxes are those of the results, of the failures and of the mailboxes in
  neither; no result is also a failure, and when the addresses are distinct no address
  is in both lists.
\<close>

theorem aggregation_partitions_mailboxes:
  "(searchMessages w lib cfg sfilters = Some (Inr (sagg, scalls))
      \<and> getSearchableMailboxes w cfg = Inr ms
      \<and> resolveFolders lib cfg (sf_folders sfilters) = Inr sfs
    \<longrightarrow> partitioned ms (\<lambda>m. resultOf (searchTaskFor w cfg sfilters sfs m))
          (ag_results sagg) (ag_failures sagg)
        \<and> set (ag_results sagg) \<inter> set (ag_failures sagg) = {}
        \<and> (distinct (map smtpAddress ms) \<longrightarrow>
             set (map r_mailbox (ag_results sagg)) \<inter> set (map r_mailbox (ag_failures sagg)) = {}))
   \<and> (deleteMessages w lib cfg dfilters = Some (Inr (dagg, dcalls))
      \<and> getSearchableMailboxes w cfg = Inr ms
      \<and> resolveFolders lib cfg (df_folders dfilters) = Inr dfs
    \<longrightarrow> partitioned ms (\<lambda>m. resultOf (deleteTaskFor w lib cfg dfilters dfs m))
          (ag_results dagg) (ag_failures dagg)
        \<and> set (ag_results dagg) \<inter> set (ag_failures dagg) = {}
        \<and> (distinct (map smtpAddress ms) \<longrightarrow>
             set (map r_mailbox (ag_results dagg)) \<inter> set (map r_mailbox (ag_failures dagg)) = {}))"
proof (intro conjI impI)
  assume a: "searchMessages w lib cfg sfilters = Some (Inr (sagg, scalls))
      \<and> getSearchableMailboxes w cfg = Inr ms
      \<and> resolveFolders lib cfg (sf_folders sfilters) = Inr sfs"
  let ?f = "searchTaskFor w cfg sfilters sfs"
  from a searchMessages_char[of w lib cfg sfilters sagg scalls]
  have T: "\<forall>m\<in>set ms. ?f m \<noteq> None"
    and R: "ag_results sagg = js_sort (byMailbox w) (filter kept (map (\<lambda>m. resultOf (?f m)) ms))"
    and F: "ag_failures sagg = filter failed (map (\<lambda>m. resultOf (?f m)) ms)"
    by auto
  have "\<forall>m\<in>set ms. \<exists>r c. ?f m = Some (r, c) \<and> resultFor (smtpAddress m) r"
    using T searchTaskFor_resultFor by fastforce
  from partitioned_aggregate[OF this R F]
  show p: "partitioned ms (\<lambda>m. resultOf (?f m)) (ag_results sagg) (ag_failures sagg)" .
  from partitioned_members[OF p]
  show "set (ag_results sagg) \<inter> set (ag_failures sagg) = {}" by simp
  assume "distinct (map smtpAddress ms)"
  from partitioned_disjoint[OF p this]
  show "set (map r_mailbox (ag_results sagg)) \<inter> set (map r_mailbox (ag_failures sagg)) = {}" .
next
  assume a: "deleteMessages w lib cfg dfilters = Some (Inr (dagg, dcalls))
      \<and> getSearchableMailboxes w cfg = Inr ms
      \<and> resolveFolders lib cfg (df_folders dfilters) = Inr dfs"
  let ?f = "deleteTaskFor w lib cfg dfilters dfs"
  from a deleteMessages_char[of w lib cfg dfilters dagg dcalls]
  have T: "\<forall>m\<in>set ms. ?f m \<noteq> None"
    and R: "ag_results dagg = js_sort (byMailbox w) (filter kept (map (\<lambda>m. resultOf (?f m)) ms))"
    and F: "ag_failures dagg = filter failed (map (\<lambda>m. resultOf (?f m)) ms)"
    by auto
  have "\<forall>m\<in>set ms. \<exists>r c. ?f m = Some (r, c) \<and> resultFor (smtpAddress m) r"
    using T deleteTaskFor_resultFor by fastforce
  from partitioned_aggregate[OF this R F]
  show p: "partitioned ms (\<lambda>m. resultOf (?f m)) (ag_results dagg) (ag_failures dagg)" .
  from partitioned_members[OF p]
  show "set (ag_results dagg) \<inter> set (ag_failures dagg) = {}" by simp
  assume "distinct (map smtpAddress ms)"
  from partitioned_disjoint[OF p this]
  show "set (map r_mailbox (ag_results dagg)) \<inter> set (map r_mailbox (ag_failures dagg)) = {}" .
qed

lemma sortedStably_js_sort:
  assumes "consistentCompare (localeCompare w)"
  shows "sortedStably w xs (js_sort (byMailbox w) xs)"
proof -
  have cc: "consistentCompare (byMailbox w)"
    using assms unfolding consistentCompare_def byMailbox_def by blast
  have same: "\<And>a. localeCompare w a a \<le> 0"
    using assms unfolding consistentCompare_def by blast
  have s: "sorted_wrt (notAfter w) (js_sort (byMailbox w) xs)"
    using sorted_js_sort[OF cc, of xs] by (simp add: notAfter_def[abs_def] byMailbox_def)
  have st: "\<And>k. filter (\<lambda>r. r_mailbox r = k) (js_sort (byMailbox w) xs)
      = filter (\<lambda>r. r_mailbox r = k) xs"
    by (rule stable_js_sort) (simp add: byMailbox_def same)
  show ?thesis
    unfolding sortedStably_def using s st by (simp add: mset_js_sort list_all_iff)
qed

text \<open>
  C6, as amended. For a search request and for a delete request that returns an
  aggregate, whatever the order of the resolved mailboxes, \<open>results\<close> is the stable sort
  of the outcomes by mailbox address in the order of the host's \<open>localeCompare\<close>,
  provided that comparison is consistent: ascending in that order, the same outcomes,
  and outcomes with the same address in the order of their tasks.
\<close>

theorem results_sorted_by_localeCompare:
  "consistentCompare (localeCompare w) \<longrightarrow>
     (searchMessages w lib cfg sfilters = Some (Inr (sagg, scalls))
        \<and> getSearchableMailboxes w cfg = Inr ms
        \<and> resolveFolders lib cfg (sf_folders sfilters) = Inr sfs
      \<longrightarrow> sortedStably w
            (filter isOutcome (map (\<lambda>m. resultOf (searchTaskFor w cfg sfilters sfs m)) ms))
            (ag_results sagg))
     \<and> (deleteMessages w lib cfg dfilters = Some (Inr (dagg, dcalls))
        \<and> getSearchableMailboxes w cfg = Inr ms
        \<and> resolveFolders lib cfg (df_folders dfilters) = Inr dfs
      \<longrightarrow> sortedStably w
            (filter isOutcome (map (\<lambda>m. resultOf (deleteTaskFor w lib cfg dfilters dfs m)) ms))
            (ag_results dagg))"
proof (intro conjI impI)
  assume c: "consistentCompare (localeCompare w)"
  assume a: "searchMessages w lib cfg sfilters = Some (Inr (sagg, scalls))
        \<and> getSearchableMailboxes w cfg = Inr ms
        \<and> resolveFolders lib cfg (sf_folders sfilters) = Inr sfs"
  let ?f = "searchTaskFor w cfg sfilters sfs"
  from a searchMessages_char[of w lib cfg sfilters sagg scalls]
  have T: "\<forall>m\<in>set ms. ?f m \<noteq> None"
    and R: "ag_results sagg = js_sort (byMailbox w) (filter kept (map (\<lambda>m. resultOf (?f m)) ms))"
    by auto
  have rf: "\<forall>m\<in>set ms. resultFor (smtpAddress m) (resultOf (?f m))"
    using T searchTaskFor_resultFor by (fastforce simp: resultOf_def)
  have k: "filter kept (map (\<lambda>m. resultOf (?f m)) ms)
      = filter isOutcome (map (\<lambda>m. resultOf (?f m)) ms)"
    using rf by (intro filter_cong refl) (auto simp: resultFor_kept)
  show "sortedStably w (filter isOutcome (map (\<lambda>m. resultOf (?f m)) ms)) (ag_results sagg)"
    unfolding R k by (rule sortedStably_js_sort[OF c])
next
  assume c: "consistentCompare (localeCompare w)"
  assume a: "deleteMessages w lib cfg dfilters = Some (Inr (dagg, dcalls))
        \<and> getSearchableMailboxes w cfg = Inr ms
        \<and> resolveFolders lib cfg (df_folders dfilters) = Inr dfs"
  let ?f = "deleteTaskFor w lib cfg dfilters dfs"
  from a deleteMessages_char[of w lib cfg dfilters dagg dcalls]
  have T: "\<forall>m\<in>set ms. ?f m \<noteq> None"
    and R: "ag_results dagg = js_sort (byMailbox w) (filter kept (map (\<lambda>m. resultOf (?f m)) ms))"
    by auto
  have rf: "\<forall>m\<in>set ms. resultFor (smtpAddress m) (resultOf (?f m))"
    using T deleteTaskFor_resultFor by (fastforce simp: resultOf_def)
  have k: "filter kept (map (\<lambda>m. resultOf (?f m)) ms)
      = filter isOutcome (map (\<lambda>m. resultOf (?f m)) ms)"
    using rf by (intro filter_cong refl) (auto simp: resultFor_kept)
  show "sortedStably w (filter isOutcome (map (\<lambda>m. resultOf (?f m)) ms)) (ag_results dagg)"
    unfolding R k by (rule sortedStably_js_sort[OF c])
qed

section \<open>The folder scanner is bounded\<close>

text \<open>
  C8. A folder scan with \<open>limit \<le> 0\<close> returns the empty list and makes no find call.
  A scan that returns, returns at most \<open>limit\<close> records. The paging loop stops, with no
  further call, as soon as the page at hand says that no more pages are available or
  \<open>limit\<close> items are held. And the scan does return whenever the server is
  productive, that is, puts at least one item on every page after which it announces
  more.
\<close>

theorem findItemsInFolder_bounded:
  "(limit \<le> 0 \<longrightarrow>
      findItemsInFolder w pageSz folder query limit mbx calls = Some (Inr [], calls))
   \<and> (\<forall>found calls'.
        findItemsInFolder w pageSz folder query limit mbx calls = Some (Inr found, calls')
        \<longrightarrow> length found \<le> nat limit)
   \<and> (\<forall>r::find_results. \<not> MoreAvailable r \<or> limit \<le> int (length items) \<longrightarrow>
        scanPages w pageSz mbx folder query limit (Some r) items calls
          = Some (Inr (take (nat limit) items), calls))
   \<and> (productive w \<longrightarrow>
        (\<exists>y. findItemsInFolder w pageSz folder query limit mbx calls = Some y))"
proof (intro conjI impI allI)
  assume "limit \<le> 0"
  then show "findItemsInFolder w pageSz folder query limit mbx calls = Some (Inr [], calls)"
    by (simp add: findItemsInFolder_def)
next
  fix found calls'
  assume "findItemsInFolder w pageSz folder query limit mbx calls = Some (Inr found, calls')"
  from findItemsInFolder_sound[OF this] show "length found \<le> nat limit" by simp
next
  fix r :: find_results
  assume "\<not> MoreAvailable r \<or> limit \<le> int (length items)"
  then show "scanPages w pageSz mbx folder query limit (Some r) items calls
          = Some (Inr (take (nat limit) items), calls)"
    by (subst scanPages.simps) auto
next
  assume "productive w"
  then show "\<exists>y. findItemsInFolder w pageSz folder query limit mbx calls = Some y"
    by (rule findItemsInFolder_terminates)
qed

lemma example_world_productive: "productive (example_world cmp)"
  unfolding productive_def by (auto split: if_splits)

text \<open>
  The example server is productive. With limit 0 the scan of the first mailbox makes no
  call; with limit 2 it stops after the first page, which fills the limit; with limit 10
  it reads both pages and returns the three items.
\<close>

theorem findItemsInFolder_bounded_witness:
  "productive (example_world compareCodeUnits)
   \<and> findItemsInFolder (example_world compareCodeUnits) 50
        \<lparr>fd_name = ''Inbox'', fd_id = Own Inbox\<rparr> ''kind:email'' 0 ''a@x.com'' []
       = Some (Inr [], [])
   \<and> (\<exists>found calls.
         findItemsInFolder (example_world compareCodeUnits) 50
           \<lparr>fd_name = ''Inbox'', fd_id = Own Inbox\<rparr> ''kind:email'' 2 ''a@x.com'' []
          = Some (Inr found, calls)
         \<and> length found \<le> 2 \<and> length calls = 1)
   \<and> (\<exists>found calls.
         findItemsInFolder (example_world compareCodeUnits) 50
           \<lparr>fd_name = ''Inbox'', fd_id = Own Inbox\<rparr> ''kind:email'' 10 ''a@x.com'' []
          = Some (Inr found, calls)
         \<and> length found = 3 \<and> length calls = 2)"
proof -
  let ?w = "example_world compareCodeUnits"
  let ?fd = "\<lparr>fd_name = ''Inbox'', fd_id = Own Inbox\<rparr>"
  have p: "productive ?w" by (rule example_world_productive)
  note b0 = findItemsInFolder_bounded[of 0 ?w 50 ?fd "''kind:email''" "''a@x.com''" "[]" "[]"]
  note b2 = findItemsInFolder_bounded[of 2 ?w 50 ?fd "''kind:email''" "''a@x.com''" "[]" "[]"]
  note b10 = findItemsInFolder_bounded[of 10 ?w 50 ?fd "''kind:email''" "''a@x.com''" "[]" "[]"]
  from b0 have z: "findItemsInFolder ?w 50 ?fd ''kind:email'' 0 ''a@x.com'' [] = Some (Inr [], [])"
    by simp
  have e2: "map_option (map_prod (map_sum id length) length)
      (findItemsInFolder ?w 50 ?fd ''kind:email'' 2 ''a@x.com'' []) = Some (Inr 2, 1)"
    by code_simp
  have e10: "map_option (map_prod (map_sum id length) length)
      (findItemsInFolder ?w 50 ?fd ''kind:email'' 10 ''a@x.com'' []) = Some (Inr 3, 2)"
    by code_simp
  from e2 obtain f2 c2 where
    r2: "findItemsInFolder ?w 50 ?fd ''kind:email'' 2 ''a@x.com'' [] = Some (Inr f2, c2)"
      "length f2 = 2" "length c2 = 1"
    by (cases "findItemsInFolder ?w 50 ?fd ''kind:email'' 2 ''a@x.com'' []")
      (auto simp: map_sum_def split: sum.splits)
  from e10 obtain f10 c10 where
    r10: "findItemsInFolder ?w 50 ?fd ''kind:email'' 10 ''a@x.com'' [] = Some (Inr f10, c10)"
      "length f10 = 3" "length c10 = 2"
    by (cases "findItemsInFolder ?w 50 ?fd ''kind:email'' 10 ''a@x.com'' []")
      (auto simp: map_sum_def split: sum.splits)
  from b2 r2 have "length f2 \<le> 2" by simp
  moreover from b10 p have "\<exists>y. findItemsInFolder ?w 50 ?fd ''kind:email'' 10 ''a@x.com'' [] = Some y"
    by blast
  ultimately show ?thesis using p z r2 r10 by blast
qed

section \<open>Consistent comparisons\<close>

lemma compareCodeUnits_Cons:
  "compareCodeUnits (x # xs) (y # ys) \<le> 0 \<longleftrightarrow>
     (of_char x :: nat) < of_char y \<or> (x = y \<and> compareCodeUnits xs ys \<le> 0)"
proof (cases "(of_char x :: nat) < of_char y")
  case True
  then show ?thesis by simp
next
  case False
  show ?thesis
  proof (cases "(of_char y :: nat) < of_char x")
    case True
    then have "x \<noteq> y" by auto
    with True False show ?thesis by simp
  next
    case ge: False
    with False have "(of_char x :: nat) = of_char y" by simp
    then have "x = y" by simp
    with False ge show ?thesis by simp
  qed
qed

lemma compareCodeUnits_Nil2: "compareCodeUnits a [] \<le> 0 \<longleftrightarrow> a = []"
  by (cases a) simp_all

lemma compareCodeUnits_Nil1: "compareCodeUnits [] b \<le> 0"
  by (cases b) simp_all

lemma compareCodeUnits_total:
  "compareCodeUnits a b \<le> 0 \<or> compareCodeUnits b a \<le> 0"
proof (induction a arbitrary: b)
  case Nil
  then show ?case by (simp add: compareCodeUnits_Nil1)
next
  case (Cons x xs)
  show ?case
  proof (cases b)
    case Nil
    then show ?thesis by (simp add: compareCodeUnits_Nil1)
  next
    case (Cons y ys)
    have "(of_char x :: nat) < of_char y \<or> (of_char y :: nat) < of_char x \<or> x = y"
      by (metis linorder_neqE_nat of_char_eq_iff)
    with Cons.IH[of ys] show ?thesis
      unfolding Cons compareCodeUnits_Cons by blast
  qed
qed

lemma compareCodeUnits_antisym:
  "compareCodeUnits a b \<le> 0 \<Longrightarrow> compareCodeUnits b a \<le> 0 \<Longrightarrow> a = b"
proof (induction a arbitrary: b)
  case Nil
  then show ?case by (simp add: compareCodeUnits_Nil2)
next
  case (Cons x xs)
  show ?case
  proof (cases b)
    case Nil
    with Cons.prems show ?thesis by (simp add: compareCodeUnits_Nil2)
  next
    case (Cons y ys)
    from Cons.prems[unfolded Cons compareCodeUnits_Cons]
    have "x = y" "compareCodeUnits xs ys \<le> 0" "compareCodeUnits ys xs \<le> 0"
      by (auto dest: less_asym)
    with Cons.IH[of ys] Cons show ?thesis by simp
  qed
qed

lemma compareCodeUnits_trans:
  "compareCodeUnits a b \<le> 0 \<Longrightarrow> compareCodeUnits b c \<le> 0 \<Longrightarrow> compareCodeUnits a c \<le> 0"
proof (induction a arbitrary: b c)
  case Nil
  then show ?case by (simp add: compareCodeUnits_Nil1)
next
  case (Cons x xs)
  from Cons.prems(1) obtain y ys where b: "b = y # ys"
    by (cases b) (auto simp: compareCodeUnits_Nil2)
  from Cons.prems(2) b obtain z zs where c: "c = z # zs"
    by (cases c) (auto simp: compareCodeUnits_Nil2)
  from Cons.prems[unfolded b c compareCodeUnits_Cons] Cons.IH[of ys zs]
  show ?case unfolding c compareCodeUnits_Cons
    by (metis less_trans)
qed

lemma consistentCompare_compareCodeUnits: "consistentCompare compareCodeUnits"
  unfolding consistentCompare_def
  using compareCodeUnits_total compareCodeUnits_trans by blast

lemma consistentCompare_compareCollated: "consistentCompare compareCollated"
  unfolding consistentCompare_def
proof (intro conjI allI impI)
  fix a b
  show "compareCollated a b \<le> 0 \<or> compareCollated b a \<le> 0"
    unfolding compareCollated_def
    using compareCodeUnits_total[of "toLowerCase a" "toLowerCase b"]
      compareCodeUnits_total[of a b]
    by auto
next
  fix a b c
  assume h: "compareCollated a b \<le> 0 \<and> compareCollated b c \<le> 0"
  let ?la = "toLowerCase a" and ?lb = "toLowerCase b" and ?lc = "toLowerCase c"
  show "compareCollated a c \<le> 0"
  proof (cases "?la = ?lb")
    case ab: True
    show ?thesis
    proof (cases "?lb = ?lc")
      case True
      with ab h show ?thesis
        unfolding compareCollated_def using compareCodeUnits_trans[of c b a] by auto
    next
      case False
      with ab h show ?thesis unfolding compareCollated_def by auto
    qed
  next
    case ab: False
    show ?thesis
    proof (cases "?lb = ?lc")
      case True
      with ab h show ?thesis unfolding compareCollated_def by auto
    next
      case bc: False
      with ab h have 1: "compareCodeUnits ?la ?lb \<le> 0" "compareCodeUnits ?lb ?lc \<le> 0"
        unfolding compareCollated_def by auto
      then have 2: "compareCodeUnits ?la ?lc \<le> 0" by (rule compareCodeUnits_trans)
      have "?la \<noteq> ?lc"
      proof
        assume "?la = ?lc"
        with 1 have "compareCodeUnits ?la ?lb \<le> 0" "compareCodeUnits ?lb ?la \<le> 0" by auto
        then have "?la = ?lb" by (rule compareCodeUnits_antisym)
        with ab show False by simp
      qed
      with 2 show ?thesis unfolding compareCollated_def by auto
    qed
  qed
qed

section \<open>The delete mode of a request\<close>

lemma resolve_unknown_mode:
  assumes "toLowerCase m \<notin> set (map fst DELETE_MODE_MAP)"
    and "toLowerCase m \<notin> set objectPrototypeKeys"
  shows "\<not> truthy_property code (get_property DELETE_MODE_MAP (toLowerCase m))"
proof -
  from assms(1) have "map_of DELETE_MODE_MAP (toLowerCase m) = None"
    by (simp add: map_of_eq_None_iff)
  with assms(2) show ?thesis
    by (simp add: truthy_property_def get_property_def)
qed

lemma deleteMessages_mode:
  assumes "deleteMessages w lib cfg filters = Some (Inr (agg, calls))"
  shows "ds_mode (ag_summary agg)
          = (let modeKey = toLowerCase (case df_deleteMode filters of
                                          None \<Rightarrow> ''softDelete'' | Some m \<Rightarrow> m)
             in if truthy_property (deleteModeCode lib) (get_property DELETE_MODE_MAP modeKey)
                then modeKey else ''softdelete'')"
  using deleteMessages_char[OF assms] by blast

text \<open>
  For a mode that is neither a key of the mode table nor the name of an inherited
  property, the summary reports \<open>softdelete\<close>.
\<close>

lemma deleteMessages_unknown_mode:
  assumes "toLowerCase m \<notin> set (map fst DELETE_MODE_MAP)"
    and "toLowerCase m \<notin> set objectPrototypeKeys"
    and "deleteMessages w lib cfg (filters\<lparr>df_deleteMode := Some m\<rparr>) = Some (Inr (agg, calls))"
  shows "ds_mode (ag_summary agg) = ''softdelete''"
  using deleteMessages_mode[OF assms(3)]
    resolve_unknown_mode[OF assms(1,2), of "deleteModeCode lib"]
  by (simp add: Let_def)

text \<open>
  C10 at an input where it fails. The lowered mode \<open>constructor\<close> is none of the three
  keys of the mode table, but reading the table under it finds the function every object
  inherits, which is truthy: the request is not rejected, the summary reports the mode
  \<open>constructor\<close> instead of \<open>softdelete\<close>, and the bulk delete calls are handed
  that inherited value as their delete mode.
\<close>

theorem deleteMessages_inherited_mode_key:
  "map_option (map_sum id (\<lambda>(agg, calls).
       (ds_mode (ag_summary agg), filter isDeleteCall (concat calls))))
     (deleteMessages (example_world compareCodeUnits) example_lib example_config
        (example_delete ''constructor'' False))
   = Some (Inr (''constructor'',
       [DeleteItemsCall ''a@x.com''
          [\<lparr>UniqueId = ''a1'', ChangeKey = ''ck''\<rparr>, \<lparr>UniqueId = ''a2'', ChangeKey = ''ck''\<rparr>,
           \<lparr>UniqueId = ''a3'', ChangeKey = ''ck''\<rparr>] (Inherited ''constructor''),
        DeleteItemsCall ''B@x.com'' [\<lparr>UniqueId = ''b1'', ChangeKey = ''ck''\<rparr>]
          (Inherited ''constructor'')]))"
  by code_simp

section \<open>The example requests\<close>

text \<open>
  The example request as a dry run and as a real run: the dry run makes the four find
  calls of the real run and none of its two bulk delete calls, and reports 0 deleted.
\<close>

theorem simulate_issues_no_delete_witness:
  "df_simulate (example_delete ''softdelete'' True) \<noteq> Some False
   \<and> (\<exists>agg calls agg' calls'.
        deleteMessages (example_world compareCodeUnits) example_lib example_config
          (example_delete ''softdelete'' True) = Some (Inr (agg, calls))
        \<and> deleteMessages (example_world compareCodeUnits) example_lib example_config
          (example_delete ''softdelete'' False) = Some (Inr (agg', calls'))
        \<and> ds_totalDeleted (ag_summary agg) = Some 0
        \<and> filter isDeleteCall (concat calls) = []
        \<and> calls = map (filter (\<lambda>c. \<not> isDeleteCall c)) calls'
        \<and> length (concat calls) = 4 \<and> length (concat calls') = 6)"
proof -
  let ?w = "example_world compareCodeUnits"
  have s: "df_simulate (example_delete ''softdelete'' True) \<noteq> Some False" by simp
  have e1: "map_option (map_sum id (length \<circ> concat \<circ> snd))
      (deleteMessages ?w example_lib example_config (example_delete ''softdelete'' True))
      = Some (Inr 4)"
    by code_simp
  have e2: "map_option (map_sum id (length \<circ> concat \<circ> snd))
      (deleteMessages ?w example_lib example_config (example_delete ''softdelete'' False))
      = Some (Inr 6)"
    by code_simp
  from e1 obtain agg calls where
    r1: "deleteMessages ?w example_lib example_config (example_delete ''softdelete'' True)
          = Some (Inr (agg, calls))" "length (concat calls) = 4"
    by (cases "deleteMessages ?w example_lib example_config (example_delete ''softdelete'' True)")
      (auto simp: map_sum_def split: sum.splits)
  from e2 obtain agg' calls' where
    r2: "deleteMessages ?w example_lib example_config (example_delete ''softdelete'' False)
          = Some (Inr (agg', calls'))" "length (concat calls') = 6"
    by (cases "deleteMessages ?w example_lib example_config (example_delete ''softdelete'' False)")
      (auto simp: map_sum_def split: sum.splits)
  have u: "(example_delete ''softdelete'' True)\<lparr>df_simulate := Some False\<rparr>
      = example_delete ''softdelete'' False" by simp
  from simulate_issues_no_delete[OF r1(1) s]
  have n: "\<forall>cs\<in>set calls. \<forall>c\<in>set cs. \<not> isDeleteCall c"
    and z: "ds_totalDeleted (ag_summary agg) = Some 0"
    and c: "calls = map (filter (\<lambda>c. \<not> isDeleteCall c)) calls'"
    unfolding u using r2(1) by blast+
  from n have "filter isDeleteCall (concat calls) = []"
    by (auto simp: filter_empty_conv)
  with s r1 r2 z c show ?thesis by blast
qed

text \<open>
  The example request as a real run: one item deleted in \<open>B@x.com\<close>, three in
  \<open>a@x.com\<close>, four in total.
\<close>

theorem totalDeleted_sums_deleted_witness:
  "df_simulate (example_delete ''softdelete'' False) = Some False
   \<and> (\<exists>agg calls.
        deleteMessages (example_world compareCodeUnits) example_lib example_config
          (example_delete ''softdelete'' False) = Some (Inr (agg, calls))
        \<and> map r_mailbox (ag_results agg) = [''B@x.com'', ''a@x.com'']
        \<and> map deletedCount (ag_results agg) = [1, 3]
        \<and> ds_totalDeleted (ag_summary agg) = Some 4)"
proof -
  let ?w = "example_world compareCodeUnits"
  have s: "df_simulate (example_delete ''softdelete'' False) = Some False" by simp
  have e: "map_option (map_sum id ((\<lambda>rs. (map r_mailbox rs, map deletedCount rs)) \<circ> ag_results \<circ> fst))
      (deleteMessages ?w example_lib example_config (example_delete ''softdelete'' False))
      = Some (Inr ([''B@x.com'', ''a@x.com''], [1, 3]))"
    by code_simp
  then obtain agg calls where
    r: "deleteMessages ?w example_lib example_config (example_delete ''softdelete'' False)
          = Some (Inr (agg, calls))"
      "map r_mailbox (ag_results agg) = [''B@x.com'', ''a@x.com'']"
      "map deletedCount (ag_results agg) = [1, 3]"
    by (cases "deleteMessages ?w example_lib example_config (example_delete ''softdelete'' False)")
      (auto simp: map_sum_def split: sum.splits)
  from totalDeleted_sums_deleted[OF r(1) s] r(3)
  have t: "ds_totalDeleted (ag_summary agg) = Some 4" by simp
  show ?thesis
    apply (intro conjI)
     apply (rule s)
    apply (rule exI[of _ agg])
    apply (rule exI[of _ calls])
    apply (intro conjI)
       apply (rule r t)+
    done
qed

lemma example_directory:
  "getSearchableMailboxes (example_world cmp) example_config = Inr example_mailboxes"
  by (simp add: getSearchableMailboxes_def createService_def truthy_opt_def truthy_str_def)

lemma example_resolved_folders:
  "resolveFolders example_lib example_config None = Inr example_folders"
  by code_simp

text \<open>
  The example requests: of the four resolved mailboxes two are results, one is a failure
  and one is in neither.
\<close>

theorem aggregation_partitions_mailboxes_witness:
  "getSearchableMailboxes (example_world compareCodeUnits) example_config = Inr example_mailboxes
   \<and> resolveFolders example_lib example_config None = Inr example_folders
   \<and> distinct (map smtpAddress example_mailboxes)
   \<and> (\<exists>agg calls.
        searchMessages (example_world compareCodeUnits) example_lib example_config example_search
          = Some (Inr (agg, calls))
        \<and> partitioned example_mailboxes
            (\<lambda>m. resultOf (searchTaskFor (example_world compareCodeUnits) example_config
                              example_search example_folders m))
            (ag_results agg) (ag_failures agg)
        \<and> map r_mailbox (ag_results agg) = [''B@x.com'', ''a@x.com'']
        \<and> map r_mailbox (ag_failures agg) = [''c@x.com'']
        \<and> set (map r_mailbox (ag_results agg)) \<inter> set (map r_mailbox (ag_failures agg)) = {})
   \<and> (\<exists>agg calls.
        deleteMessages (example_world compareCodeUnits) example_lib example_config
          (example_delete ''softdelete'' True) = Some (Inr (agg, calls))
        \<and> partitioned example_mailboxes
            (\<lambda>m. resultOf (deleteTaskFor (example_world compareCodeUnits) example_lib
                              example_config (example_delete ''softdelete'' True)
                              example_folders m))
            (ag_results agg) (ag_failures agg)
        \<and> map r_mailbox (ag_results agg) = [''B@x.com'', ''a@x.com'']
        \<and> map r_mailbox (ag_failures agg) = [''c@x.com'']
        \<and> set (map r_mailbox (ag_results agg)) \<inter> set (map r_mailbox (ag_failures agg)) = {})"
proof -
  let ?w = "example_world compareCodeUnits"
  let ?d = "example_delete ''softdelete'' True"
  note M = example_directory[of compareCodeUnits]
  note F = example_resolved_folders
  have dist: "distinct (map smtpAddress example_mailboxes)" by simp
  have e1: "map_option (map_sum id ((\<lambda>a. (map r_mailbox (ag_results a), map r_mailbox (ag_failures a))) \<circ> fst))
      (searchMessages ?w example_lib example_config example_search)
      = Some (Inr ([''B@x.com'', ''a@x.com''], [''c@x.com'']))"
    by code_simp
  have e2: "map_option (map_sum id ((\<lambda>a. (map r_mailbox (ag_results a), map r_mailbox (ag_failures a))) \<circ> fst))
      (deleteMessages ?w example_lib example_config ?d)
      = Some (Inr ([''B@x.com'', ''a@x.com''], [''c@x.com'']))"
    by code_simp
  from e1 obtain sagg scalls where
    s: "searchMessages ?w example_lib example_config example_search = Some (Inr (sagg, scalls))"
      "map r_mailbox (ag_results sagg) = [''B@x.com'', ''a@x.com'']"
      "map r_mailbox (ag_failures sagg) = [''c@x.com'']"
    by (cases "searchMessages ?w example_lib example_config example_search")
      (auto simp: map_sum_def split: sum.splits)
  from e2 obtain dagg dcalls where
    d: "deleteMessages ?w example_lib example_config ?d = Some (Inr (dagg, dcalls))"
      "map r_mailbox (ag_results dagg) = [''B@x.com'', ''a@x.com'']"
      "map r_mailbox (ag_failures dagg) = [''c@x.com'']"
    by (cases "deleteMessages ?w example_lib example_config ?d")
      (auto simp: map_sum_def split: sum.splits)
  have F1: "resolveFolders example_lib example_config (sf_folders example_search) = Inr example_folders"
    using F by simp
  have F2: "resolveFolders example_lib example_config (df_folders ?d) = Inr example_folders"
    using F by simp
  note t = aggregation_partitions_mailboxes
             [where w = ?w and lib = example_lib and cfg = example_config
                and sfilters = example_search and sagg = sagg and scalls = scalls
                and ms = example_mailboxes and sfs = example_folders
                and dfilters = ?d and dagg = dagg and dcalls = dcalls
                and dfs = example_folders]
  from t s(1) M F1 dist
  have ps: "partitioned example_mailboxes
            (\<lambda>m. resultOf (searchTaskFor ?w example_config example_search example_folders m))
            (ag_results sagg) (ag_failures sagg)"
    and ds: "set (map r_mailbox (ag_results sagg)) \<inter> set (map r_mailbox (ag_failures sagg)) = {}"
    by blast+
  from t d(1) M F2 dist
  have pd: "partitioned example_mailboxes
            (\<lambda>m. resultOf (deleteTaskFor ?w example_lib example_config ?d example_folders m))
            (ag_results dagg) (ag_failures dagg)"
    and dd: "set (map r_mailbox (ag_results dagg)) \<inter> set (map r_mailbox (ag_failures dagg)) = {}"
    by blast+
  show ?thesis
    apply (intro conjI)
        apply (rule M)
       apply (rule F)
      apply (rule dist)
     apply (rule exI[of _ sagg])
     apply (rule exI[of _ scalls])
     apply (intro conjI)
         apply (rule s ps ds)+
    apply (rule exI[of _ dagg])
    apply (rule exI[of _ dcalls])
    apply (intro conjI)
        apply (rule d pd dd)+
    done
qed

text \<open>
  The example requests on a host whose \<open>localeCompare\<close> compares character codes: the
  directory lists \<open>a@x.com\<close> before \<open>B@x.com\<close>, the results come in the order
  \<open>B@x.com\<close>, \<open>a@x.com\<close>.
\<close>

theorem results_sorted_by_localeCompare_witness:
  "consistentCompare (localeCompare (example_world compareCodeUnits))
   \<and> getSearchableMailboxes (example_world compareCodeUnits) example_config = Inr example_mailboxes
   \<and> resolveFolders example_lib example_config None = Inr example_folders
   \<and> (\<exists>agg calls.
        searchMessages (example_world compareCodeUnits) example_lib example_config example_search
          = Some (Inr (agg, calls))
        \<and> sortedStably (example_world compareCodeUnits)
            (filter isOutcome
               (map (\<lambda>m. resultOf (searchTaskFor (example_world compareCodeUnits) example_config
                                      example_search example_folders m)) example_mailboxes))
            (ag_results agg)
        \<and> map r_mailbox (ag_results agg) = [''B@x.com'', ''a@x.com''])
   \<and> (\<exists>agg calls.
        deleteMessages (example_world compareCodeUnits) example_lib example_config
          (example_delete ''softdelete'' True) = Some (Inr (agg, calls))
        \<and> sortedStably (example_world compareCodeUnits)
            (filter isOutcome
               (map (\<lambda>m. resultOf (deleteTaskFor (example_world compareCodeUnits) example_lib
                                      example_config (example_delete ''softdelete'' True)
                                      example_folders m)) example_mailboxes))
            (ag_results agg)
        \<and> map r_mailbox (ag_results agg) = [''B@x.com'', ''a@x.com''])"
proof -
  let ?w = "example_world compareCodeUnits"
  let ?d = "example_delete ''softdelete'' True"
  have c: "consistentCompare (localeCompare ?w)"
    using consistentCompare_compareCodeUnits by simp
  note M = example_directory[of compareCodeUnits]
  note F = example_resolved_folders
  have e1: "map_option (map_sum id (map r_mailbox \<circ> ag_results \<circ> fst))
      (searchMessages ?w example_lib example_config example_search)
      = Some (Inr [''B@x.com'', ''a@x.com''])"
    by code_simp
  have e2: "map_option (map_sum id (map r_mailbox \<circ> ag_results \<circ> fst))
      (deleteMessages ?w example_lib example_config ?d)
      = Some (Inr [''B@x.com'', ''a@x.com''])"
    by code_simp
  from e1 obtain sagg scalls where
    s: "searchMessages ?w example_lib example_config example_search = Some (Inr (sagg, scalls))"
      "map r_mailbox (ag_results sagg) = [''B@x.com'', ''a@x.com'']"
    by (cases "searchMessages ?w example_lib example_config example_search")
      (auto simp: map_sum_def split: sum.splits)
  from e2 obtain dagg dcalls where
    d: "deleteMessages ?w example_lib example_config ?d = Some (Inr (dagg, dcalls))"
      "map r_mailbox (ag_results dagg) = [''B@x.com'', ''a@x.com'']"
    by (cases "deleteMessages ?w example_lib example_config ?d")
      (auto simp: map_sum_def split: sum.splits)
  have F1: "resolveFolders example_lib example_config (sf_folders example_search) = Inr example_folders"
    using F by simp
  have F2: "resolveFolders example_lib example_config (df_folders ?d) = Inr example_folders"
    using F by simp
  note t = results_sorted_by_localeCompare
             [where w = ?w and lib = example_lib and cfg = example_config
                and sfilters = example_search and sagg = sagg and scalls = scalls
                and ms = example_mailboxes and sfs = example_folders
                and dfilters = ?d and dagg = dagg and dcalls = dcalls
                and dfs = example_folders]
  from t c s(1) M F1
  have ps: "sortedStably ?w
            (filter isOutcome
               (map (\<lambda>m. resultOf (searchTaskFor ?w example_config example_search
                                      example_folders m)) example_mailboxes))
            (ag_results sagg)"
    by blast
  from t c d(1) M F2
  have pd: "sortedStably ?w
            (filter isOutcome
               (map (\<lambda>m. resultOf (deleteTaskFor ?w example_lib example_config ?d
                                      example_folders m)) example_mailboxes))
            (ag_results dagg)"
    by blast
  show ?thesis
    apply (intro conjI)
        apply (rule c)
       apply (rule M)
      apply (rule F)
     apply (rule exI[of _ sagg])
     apply (rule exI[of _ scalls])
     apply (intro conjI)
       apply (rule s ps)+
    apply (rule exI[of _ dagg])
    apply (rule exI[of _ dcalls])
    apply (intro conjI)
      apply (rule d pd)+
    done
qed

text \<open>
  C6 as the specification states it fails on a host whose \<open>localeCompare\<close> collates:
  the comparison is consistent, the results of the example requests come in the order
  \<open>a@x.com\<close>, \<open>B@x.com\<close>, and in case-sensitive lexicographic order
  \<open>a@x.com\<close> comes after \<open>B@x.com\<close>.
\<close>

theorem results_not_in_code_unit_order:
  "consistentCompare compareCollated
   \<and> map_option (map_sum id (map r_mailbox \<circ> ag_results \<circ> fst))
       (searchMessages (example_world compareCollated) example_lib example_config
          example_search)
     = Some (Inr [''a@x.com'', ''B@x.com''])
   \<and> map_option (map_sum id (map r_mailbox \<circ> ag_results \<circ> fst))
       (deleteMessages (example_world compareCollated) example_lib example_config
          (example_delete ''softdelete'' True))
     = Some (Inr [''a@x.com'', ''B@x.com''])
   \<and> compareCodeUnits ''a@x.com'' ''B@x.com'' = 1"
proof (intro conjI)
  show "consistentCompare compareCollated" by (rule consistentCompare_compareCollated)
  show "map_option (map_sum id (map r_mailbox \<circ> ag_results \<circ> fst))
       (searchMessages (example_world compareCollated) example_lib example_config
          example_search)
     = Some (Inr [''a@x.com'', ''B@x.com''])"
    by code_simp
  show "map_option (map_sum id (map r_mailbox \<circ> ag_results \<circ> fst))
       (deleteMessages (example_world compareCollated) example_lib example_config
          (example_delete ''softdelete'' True))
     = Some (Inr [''a@x.com'', ''B@x.com''])"
    by code_simp
  show "compareCodeUnits ''a@x.com'' ''B@x.com'' = 1" by simp
qed

end
